theory Spec2Isabelle
  imports Complex_Main
begin

section \<open>Exceptions\<close>

text \<open>
  Python exceptions are values: a class tag and the message that \<open>str(e)\<close> yields.
  \<open>ConnectionError\<close> is the builtin class (a subclass of \<open>OSError\<close>), which is what the
  bare name denotes in \<^verbatim>\<open>main.py\<close>; the classes of the \<^verbatim>\<open>requests\<close> library are
  \<open>RequestException\<close> and its subclasses \<open>HTTPError\<close>, \<open>Timeout\<close>,
  \<open>Requests_ConnectionError\<close> (\<^verbatim>\<open>requests.exceptions.ConnectionError\<close>) and
  \<open>JSONDecodeError\<close> (\<^verbatim>\<open>requests.exceptions.JSONDecodeError\<close>, which \<^verbatim>\<open>response.json()\<close>
  raises for a body that is not JSON).
\<close>

datatype exc_class =
    ValueError
  | KeyError
  | TypeError
  | UnicodeDecodeError
  | OSError
  | ConnectionError
  | RequestException
  | HTTPError
  | Timeout
  | Requests_ConnectionError
  | JSONDecodeError
  | PdfReadError
  | NotFound

datatype exn = Exn (exn_class: exc_class) (exn_msg: string)

text \<open>\<^verbatim>\<open>except requests.exceptions.RequestException\<close>: the classes that handler catches.\<close>

fun is_RequestException :: "exc_class \<Rightarrow> bool" where
  "is_RequestException RequestException = True"
| "is_RequestException HTTPError = True"
| "is_RequestException Timeout = True"
| "is_RequestException Requests_ConnectionError = True"
| "is_RequestException JSONDecodeError = True"
| "is_RequestException _ = False"

section \<open>Document Builder (\<^verbatim>\<open>processor.py\<close>, \<^verbatim>\<open>create_word_doc\<close>)\<close>

text \<open>
  A Python string is the list of its Unicode code points. The document is the ordered
  list of blocks added to it; its serialisation into the returned byte buffer is left to
  the library.
\<close>

type_synonym ustring = "nat list"

text \<open>A literal of 8-bit characters, as code points.\<close>

definition ustr :: "string \<Rightarrow> ustring" where
  "ustr s = map of_char s"

datatype block = Heading nat ustring | Paragraph ustring

text \<open>
  \<^verbatim>\<open>str.isspace\<close> on one code point: the characters of general category Zs or of
  bidirectional class WS, B or S.
\<close>

definition isspace :: "nat \<Rightarrow> bool" where
  "isspace n =
     ((0x09 \<le> n \<and> n \<le> 0x0D) \<or> (0x1C \<le> n \<and> n \<le> 0x20) \<or> n = 0x85 \<or> n = 0xA0
      \<or> n = 0x1680 \<or> (0x2000 \<le> n \<and> n \<le> 0x200A) \<or> n = 0x2028 \<or> n = 0x2029
      \<or> n = 0x202F \<or> n = 0x205F \<or> n = 0x3000)"

text \<open>\<^verbatim>\<open>s.strip()\<close>: leading and trailing whitespace removed.\<close>

definition strip :: "ustring \<Rightarrow> ustring" where
  "strip s = rev (dropWhile isspace (rev (dropWhile isspace s)))"

text \<open>\<^verbatim>\<open>s.split(sep)\<close> for a one-character separator: never an empty list.\<close>

fun split_on :: "'a \<Rightarrow> 'a list \<Rightarrow> 'a list list" where
  "split_on sep [] = [[]]"
| "split_on sep (c # cs) =
     (if c = sep then [] # split_on sep cs
      else (case split_on sep cs of
              [] \<Rightarrow> [[c]]
            | l # ls \<Rightarrow> (c # l) # ls))"

text \<open>The line feed, as a byte and as a code point.\<close>

definition newline :: char where
  "newline = CHR 0x0A"

definition linefeed :: nat where
  "linefeed = 0x0A"

text \<open>
  \<^verbatim>\<open>doc.add_paragraph(text)\<close>. The library turns a tab, a line feed and a carriage return
  into markup of their own and hands the other characters to the XML tree, which raises
  a \<open>ValueError\<close> for a string holding a code point below U+0020, a surrogate, U+FFFE or
  U+FFFF.
\<close>

definition xml_char :: "nat \<Rightarrow> bool" where
  "xml_char n =
     (n = 0x09 \<or> n = 0x0A \<or> n = 0x0D \<or> (0x20 \<le> n \<and> n < 0xD800)
      \<or> (0xDFFF < n \<and> n < 0xFFFE) \<or> 0xFFFF < n)"

definition not_xml_compatible :: exn where
  "not_xml_compatible =
     Exn ValueError
       ''All strings must be XML compatible: Unicode or ASCII, no NULL bytes or control characters''"

definition add_paragraph :: "block list \<Rightarrow> ustring \<Rightarrow> exn + block list" where
  "add_paragraph doc text =
     (if list_all xml_char text then Inr (doc @ [Paragraph text]) else Inl not_xml_compatible)"

text \<open>
  The body of the \<^verbatim>\<open>for paragraph in content.split('\n')\<close> loop, on the document so far;
  an exception of \<^verbatim>\<open>add_paragraph\<close> leaves the function, which has no handler.
\<close>

fun add_paragraphs :: "block list \<Rightarrow> ustring list \<Rightarrow> exn + block list" where
  "add_paragraphs doc [] = Inr doc"
| "add_paragraphs doc (paragraph # rest) =
     (if strip paragraph \<noteq> [] then
        (case add_paragraph doc paragraph of
           Inl e \<Rightarrow> Inl e
         | Inr doc' \<Rightarrow> add_paragraphs doc' rest)
      else add_paragraphs doc rest)"

definition create_word_doc :: "ustring \<Rightarrow> exn + block list" where
  "create_word_doc content =
     add_paragraphs [Heading 1 (ustr ''Enhanced Document'')] (split_on linefeed content)"

text \<open>The specification's wording: a line is skipped when it is empty or all whitespace.\<close>

definition blank_line :: "ustring \<Rightarrow> bool" where
  "blank_line l = (l = [] \<or> list_all isspace l)"

text \<open>A line the loop hands to the library and the library takes, or a skipped one.\<close>

definition line_accepted :: "ustring \<Rightarrow> bool" where
  "line_accepted l = (blank_line l \<or> list_all xml_char l)"

fun is_heading :: "block \<Rightarrow> bool" where
  "is_heading (Heading _ _) = True"
| "is_heading (Paragraph _) = False"

text \<open>\<^verbatim>\<open>sep.join(xs)\<close>, to say what splitting means.\<close>

fun join_with :: "'a \<Rightarrow> 'a list list \<Rightarrow> 'a list" where
  "join_with sep [] = []"
| "join_with sep [l] = l"
| "join_with sep (l # m # ls) = l @ sep # join_with sep (m # ls)"

section \<open>Enhancement client (\<^verbatim>\<open>main.py\<close>)\<close>

definition MAX_RETRIES :: nat where
  "MAX_RETRIES = 3"

definition INITIAL_TIMEOUT :: nat where
  "INITIAL_TIMEOUT = 30"

definition TIMEOUT_BACKOFF_FACTOR :: nat where
  "TIMEOUT_BACKOFF_FACTOR = 2"

text \<open>
  What the process does to the outside world, in order: a GET of the status route with
  its timeout, the launch of \<^verbatim>\<open>ollama serve\<close>, a \<^verbatim>\<open>time.sleep\<close>, a POST to the chat
  route with its timeout and the user content sent, and an \<^verbatim>\<open>st.error\<close> diagnostic.
\<close>

datatype event =
    Get nat
  | Popen
  | Sleep rat
  | Post nat string
  | StError string

text \<open>
  The backend is scripted: the \<open>i\<close>-th GET either answers with a status code or raises,
  the \<open>i\<close>-th launch either starts the child process or raises, and the \<open>i\<close>-th POST
  (which may depend on the timeout and the content) either raises, or answers with a
  status code, the reason text of that status, and a body. The body is either not JSON,
  with the message of the decoding error, or JSON, with what the lookup
  \<^verbatim>\<open>["message"]["content"]\<close> in it evaluates to (a string, or the exception the lookup
  raises).
\<close>

datatype get_result = GetStatus nat | GetRaises

datatype payload = InvalidJson string | Parsed "exn + string"

datatype post_result =
    PostRaises exn
  | Response nat string payload

record backend =
  get_tags :: "nat \<Rightarrow> get_result"
  popen :: "nat \<Rightarrow> bool"
  post_chat :: "nat \<Rightarrow> nat \<Rightarrow> string \<Rightarrow> post_result"

text \<open>How many GETs, launches and POSTs have been made so far.\<close>

record world =
  n_get :: nat
  n_popen :: nat
  n_post :: nat

definition start_ollama_server :: "backend \<Rightarrow> world \<Rightarrow> bool \<times> event list \<times> world" where
  "start_ollama_server b w =
     (let w1 = w\<lparr>n_popen := n_popen w + 1\<rparr> in
      if popen b (n_popen w) then (True, [Popen, Sleep 3], w1)
      else (False, [Popen], w1))"

definition check_ollama_connection :: "backend \<Rightarrow> world \<Rightarrow> bool \<times> event list \<times> world" where
  "check_ollama_connection b w =
     (let w1 = w\<lparr>n_get := n_get w + 1\<rparr> in
      case get_tags b (n_get w) of
        GetStatus code \<Rightarrow> (code = 200, [Get 5], w1)
      | GetRaises \<Rightarrow>
          (case start_ollama_server b w1 of
             (False, es, w2) \<Rightarrow> (False, Get 5 # es, w2)
           | (True, es, w2) \<Rightarrow>
               (let w3 = w2\<lparr>n_get := n_get w2 + 1\<rparr>;
                    es3 = Get 5 # es @ [Sleep 5, Get 5] in
                case get_tags b (n_get w2) of
                  GetStatus code \<Rightarrow> (code = 200, es3, w3)
                | GetRaises \<Rightarrow> (False, es3, w3))))"

text \<open>
  Lines 68 to 92 on the answer to one POST: \<^verbatim>\<open>requests.post\<close> raising,
  \<^verbatim>\<open>raise_for_status\<close> (an \<open>HTTPError\<close> for a status from 400 to 599),
  \<^verbatim>\<open>response.json()\<close> (a \<open>JSONDecodeError\<close> for a body that is not JSON), then the
  lookup of the content.
\<close>

definition post_step :: "backend \<Rightarrow> nat \<Rightarrow> nat \<Rightarrow> string \<Rightarrow> exn + string" where
  "post_step b i timeout sent =
     (case post_chat b i timeout sent of
        PostRaises e \<Rightarrow> Inl e
      | Response code reason payload \<Rightarrow>
          if 400 \<le> code \<and> code < 600 then Inl (Exn HTTPError reason)
          else
            (case payload of
               InvalidJson msg \<Rightarrow> Inl (Exn JSONDecodeError msg)
             | Parsed looked_up \<Rightarrow> looked_up))"

text \<open>The body of the \<^verbatim>\<open>try\<close> of one attempt: the value returned, or the exception raised.\<close>

definition attempt_body ::
  "backend \<Rightarrow> string \<Rightarrow> nat \<Rightarrow> world \<Rightarrow> (exn + string) \<times> event list \<times> world" where
  "attempt_body b text timeout w =
     (case check_ollama_connection b w of
        (False, es, w1) \<Rightarrow> (Inl (Exn ConnectionError ''Ollama server unavailable''), es, w1)
      | (True, es, w1) \<Rightarrow>
          (let sent = take 20000 text in
           (post_step b (n_post w1) timeout sent,
            es @ [Post timeout sent],
            w1\<lparr>n_post := n_post w1 + 1\<rparr>)))"

text \<open>
  Where the function is left: the \<^verbatim>\<open>return\<close> of line 92 (the generated content), of
  line 103 (after the diagnostic) or of line 105 (after the loop), or the \<^verbatim>\<open>raise\<close> of
  line 96.
\<close>

datatype exit_site = Line92 | Line103 | Line105

datatype outcome = Returned exit_site string | Raised exn

text \<open>
  The loop \<^verbatim>\<open>for attempt in range(max_retries)\<close> with \<open>n\<close> iterations left, at iteration
  \<open>attempt\<close> with the current \<open>timeout\<close>. The comparison with \<^verbatim>\<open>MAX_RETRIES - 1\<close> is on
  Python integers. The sleep is \<^verbatim>\<open>timeout * 0.5\<close>.
\<close>

fun retry_loop ::
  "backend \<Rightarrow> string \<Rightarrow> nat \<Rightarrow> nat \<Rightarrow> nat \<Rightarrow> nat \<Rightarrow> world \<Rightarrow> outcome \<times> event list" where
  "retry_loop b text max_retries 0 attempt timeout w = (Returned Line105 text, [])"
| "retry_loop b text max_retries (Suc n) attempt timeout w =
     (case attempt_body b text timeout w of
        (Inr content, es, w1) \<Rightarrow> (Returned Line92 content, es)
      | (Inl e, es, w1) \<Rightarrow>
          if is_RequestException (exn_class e) then
            if int attempt = int max_retries - 1 then (Raised e, es)
            else
              (case retry_loop b text max_retries n (attempt + 1)
                      (timeout * TIMEOUT_BACKOFF_FACTOR) w1 of
                 (r, es') \<Rightarrow> (r, es @ Sleep (of_nat timeout * (1 / 2)) # es'))
          else (Returned Line103 text, es @ [StError (''Unexpected error: '' @ exn_msg e)]))"

definition enhance_text_with_ollama :: "backend \<Rightarrow> string \<Rightarrow> world \<Rightarrow> outcome \<times> event list" where
  "enhance_text_with_ollama b text w =
     retry_loop b text MAX_RETRIES MAX_RETRIES 0 INITIAL_TIMEOUT w"

text \<open>Reading a trace: the timeouts of the POSTs, in order.\<close>

fun post_timeouts :: "event list \<Rightarrow> nat list" where
  "post_timeouts [] = []"
| "post_timeouts (Post t s # es) = t # post_timeouts es"
| "post_timeouts (e # es) = post_timeouts es"

fun next_post :: "event list \<Rightarrow> nat option" where
  "next_post [] = None"
| "next_post (Post t s # es) = Some t"
| "next_post (e # es) = next_post es"

text \<open>
  The retry waits of a trace: a sleep that directly follows a POST is the wait of line
  97; with it, the timeout of the POST that failed and the timeout of the next POST, if
  there is one. (The sleeps of the connection check follow a launch, never a POST.)
\<close>

fun retry_waits :: "event list \<Rightarrow> (nat \<times> rat \<times> nat option) list" where
  "retry_waits [] = []"
| "retry_waits (Post t s # Sleep d # es) = (t, d, next_post es) # retry_waits es"
| "retry_waits (e # es) = retry_waits es"

text \<open>The traces one connection check can leave.\<close>

definition is_check_trace :: "event list \<Rightarrow> bool" where
  "is_check_trace es =
     (es = [Get 5] \<or> es = [Get 5, Popen] \<or> es = [Get 5, Popen, Sleep 3, Sleep 5, Get 5])"

text \<open>The timeouts of \<open>k\<close> attempts from \<open>t\<close> on, each the previous one times the factor.\<close>

fun backoff :: "nat \<Rightarrow> nat \<Rightarrow> nat list" where
  "backoff t 0 = []"
| "backoff t (Suc k) = t # backoff (t * TIMEOUT_BACKOFF_FACTOR) k"

text \<open>Concrete backends and a fresh world, for evaluating the client.\<close>

definition idle_world :: world where
  "idle_world = \<lparr>n_get = 0, n_popen = 0, n_post = 0\<rparr>"

definition unreachable_backend :: backend where
  "unreachable_backend =
     \<lparr>get_tags = (\<lambda>i. GetRaises),
      popen = (\<lambda>i. True),
      post_chat = (\<lambda>i t s. PostRaises (Exn Requests_ConnectionError ''refused''))\<rparr>"

definition flaky_backend :: backend where
  "flaky_backend =
     \<lparr>get_tags = (\<lambda>i. GetStatus 200),
      popen = (\<lambda>i. True),
      post_chat = (\<lambda>i t s. if i < 1 then PostRaises (Exn Timeout ''timed out'')
                             else Response 200 ''OK'' (Parsed (Inr ''better'')))\<rparr>"

definition failing_backend :: backend where
  "failing_backend =
     \<lparr>get_tags = (\<lambda>i. GetStatus 200),
      popen = (\<lambda>i. True),
      post_chat = (\<lambda>i t s. Response 503 ''Service Unavailable'' (Parsed (Inr [])))\<rparr>"

definition garbled_backend :: backend where
  "garbled_backend =
     \<lparr>get_tags = (\<lambda>i. GetStatus 200),
      popen = (\<lambda>i. True),
      post_chat = (\<lambda>i t s. Response 200 ''OK''
                     (InvalidJson ''Expecting value: line 1 column 1 (char 0)''))\<rparr>"

definition malformed_backend :: backend where
  "malformed_backend =
     \<lparr>get_tags = (\<lambda>i. GetStatus 200),
      popen = (\<lambda>i. True),
      post_chat = (\<lambda>i t s. Response 200 ''OK'' (Parsed (Inl (Exn KeyError ''message''))))\<rparr>"

section \<open>Persisting a document (\<^verbatim>\<open>main.py\<close>, \<^verbatim>\<open>save_to_firestore\<close>)\<close>

text \<open>The dictionary written by \<^verbatim>\<open>doc_ref.set\<close>; \<open>doc_name\<close> is its key \<^verbatim>\<open>"name"\<close>.\<close>

record doc_record =
  doc_id :: string
  doc_name :: string
  original_content :: string
  enhanced_content :: string
  created_at :: string
  updated_at :: string
  status :: string

text \<open>
  The store: the documents of each user, by user id and document reference id, and the
  \<^verbatim>\<open>doc_count\<close> of each user document that exists.
\<close>

record firestore =
  documents :: "(string \<times> string) \<rightharpoonup> doc_record"
  doc_count :: "string \<rightharpoonup> int"

text \<open>
  What the call reads from outside: whether getting the client, the \<^verbatim>\<open>set\<close> or the
  \<^verbatim>\<open>update\<close> raises, the id of the new document reference, the generated uuid and the
  two clock readings.
\<close>

record store_env =
  client_fault :: "exn option"
  new_ref_id :: string
  uuid4 :: string
  now_created :: string
  now_updated :: string
  set_fault :: "exn option"
  update_fault :: "exn option"

definition save_failed :: "exn \<Rightarrow> firestore \<Rightarrow> string option \<times> event list \<times> firestore" where
  "save_failed e db = (None, [StError (''Failed to save document: '' @ exn_msg e)], db)"

text \<open>An \<^verbatim>\<open>update\<close> of a user document that does not exist raises \<open>NotFound\<close>.\<close>

definition save_to_firestore ::
  "store_env \<Rightarrow> string \<Rightarrow> string \<Rightarrow> string \<Rightarrow> string \<Rightarrow> firestore
     \<Rightarrow> string option \<times> event list \<times> firestore" where
  "save_to_firestore env user_id name original enhanced db =
     (case client_fault env of
        Some e \<Rightarrow> save_failed e db
      | None \<Rightarrow>
          (case set_fault env of
             Some e \<Rightarrow> save_failed e db
           | None \<Rightarrow>
               (let db1 = db\<lparr>documents := (documents db)((user_id, new_ref_id env) \<mapsto>
                            \<lparr>doc_id = uuid4 env,
                             doc_name = name,
                             original_content = take 10000 original,
                             enhanced_content = take 10000 enhanced,
                             created_at = now_created env,
                             updated_at = now_updated env,
                             status = ''processed''\<rparr>)\<rparr> in
                case update_fault env of
                  Some e \<Rightarrow> save_failed e db1
                | None \<Rightarrow>
                    (case doc_count db1 user_id of
                       None \<Rightarrow> save_failed (Exn NotFound ''No document to update'') db1
                     | Some c \<Rightarrow>
                         (Some (new_ref_id env), [],
                          db1\<lparr>doc_count := (doc_count db1)(user_id \<mapsto> c + 1)\<rparr>)))))"

definition sample_store_env :: store_env where
  "sample_store_env =
     \<lparr>client_fault = None, new_ref_id = ''ref1'', uuid4 = ''u-1'',
      now_created = ''2024-01-01T00:00:00'', now_updated = ''2024-01-01T00:00:01'',
      set_fault = None, update_fault = None\<rparr>"

definition sample_store :: firestore where
  "sample_store = \<lparr>documents = Map.empty, doc_count = [''alice'' \<mapsto> 0]\<rparr>"

section \<open>Text Extractor (\<^verbatim>\<open>processor.py\<close>, \<^verbatim>\<open>process_document\<close>)\<close>

text \<open>An uploaded file: its name and its bytes (8-bit characters). An image is opaque data.\<close>

record upload =
  filename :: string
  getvalue :: string

type_synonym image = string

text \<open>The files on disk, by path.\<close>

type_synonym files = "string \<rightharpoonup> string"

text \<open>
  The libraries, as functions of the bytes they read: decoding UTF-8, the paragraph
  texts of a DOCX, the pages of a PDF (each page the result of its \<^verbatim>\<open>extract_text\<close>), the
  page images of a PDF and the text recognised in an image; each may raise. Then the path
  \<^verbatim>\<open>NamedTemporaryFile\<close> picks, and whether writing the bytes to it raises.
\<close>

record extractor_env =
  decode_utf8 :: "string \<Rightarrow> exn + string"
  docx_paragraphs :: "string \<Rightarrow> exn + string list"
  pdf_pages :: "string \<Rightarrow> exn + (exn + string) list"
  pdf_images :: "string \<Rightarrow> exn + image list"
  image_to_string :: "image \<Rightarrow> exn + string"
  tmp_name :: string
  tmp_write :: "string \<Rightarrow> exn option"

text \<open>The OCR calls made: \<^verbatim>\<open>convert_from_path\<close> on a path, \<^verbatim>\<open>image_to_string\<close> on an image.\<close>

datatype ocr_event = ConvertFromPath string | ImageToString image

definition endswith :: "string \<Rightarrow> string \<Rightarrow> bool" where
  "endswith s suffix =
     (length suffix \<le> length s \<and> drop (length s - length suffix) s = suffix)"

text \<open>Reading a file that is not there raises.\<close>

definition read_file :: "files \<Rightarrow> string \<Rightarrow> exn + string" where
  "read_file fs path =
     (case fs path of
        None \<Rightarrow> Inl (Exn OSError (''No such file or directory: '' @ path))
      | Some bytes \<Rightarrow> Inr bytes)"

text \<open>The inner loop, lines 36 and 37, on the text accumulated so far.\<close>

fun ocr_images :: "extractor_env \<Rightarrow> image list \<Rightarrow> string \<Rightarrow> (exn + string) \<times> ocr_event list" where
  "ocr_images env [] text = (Inr text, [])"
| "ocr_images env (im # ims) text =
     (case image_to_string env im of
        Inl e \<Rightarrow> (Inl e, [ImageToString im])
      | Inr s \<Rightarrow>
          (case ocr_images env ims (text @ s @ [newline]) of
             (r, es) \<Rightarrow> (r, ImageToString im # es)))"

text \<open>The page loop, lines 29 to 37; \<^verbatim>\<open>if page_text\<close> holds for a non-empty string.\<close>

fun extract_pages ::
  "extractor_env \<Rightarrow> files \<Rightarrow> string \<Rightarrow> (exn + string) list \<Rightarrow> string
     \<Rightarrow> (exn + string) \<times> ocr_event list" where
  "extract_pages env fs path [] text = (Inr text, [])"
| "extract_pages env fs path (page # pages) text =
     (case page of
        Inl e \<Rightarrow> (Inl e, [])
      | Inr page_text \<Rightarrow>
          if page_text \<noteq> [] then extract_pages env fs path pages (text @ page_text @ [newline])
          else
            (case (case read_file fs path of Inl e \<Rightarrow> Inl e | Inr bytes \<Rightarrow> pdf_images env bytes) of
               Inl e \<Rightarrow> (Inl e, [ConvertFromPath path])
             | Inr images \<Rightarrow>
                 (case ocr_images env images text of
                    (Inl e, es) \<Rightarrow> (Inl e, ConvertFromPath path # es)
                  | (Inr text', es) \<Rightarrow>
                      (case extract_pages env fs path pages text' of
                         (r, es') \<Rightarrow> (r, ConvertFromPath path # es @ es')))))"

text \<open>Lines 26 to 38, the body of the inner \<^verbatim>\<open>try\<close>.\<close>

definition read_pdf :: "extractor_env \<Rightarrow> files \<Rightarrow> string \<Rightarrow> (exn + string) \<times> ocr_event list" where
  "read_pdf env fs path =
     (case read_file fs path of
        Inl e \<Rightarrow> (Inl e, [])
      | Inr bytes \<Rightarrow>
          (case pdf_pages env bytes of
             Inl e \<Rightarrow> (Inl e, [])
           | Inr pages \<Rightarrow> extract_pages env fs path pages []))"

text \<open>
  Lines 21 to 40. \<^verbatim>\<open>NamedTemporaryFile(delete=False)\<close> creates the file; the \<^verbatim>\<open>with\<close>
  block writes the upload and closes it, deleting nothing; only then does the
  \<^verbatim>\<open>try\<close> begin whose \<^verbatim>\<open>finally\<close> unlinks the path. Creating the file and
  unlinking it are taken to succeed; the write may raise.
\<close>

definition extract_pdf ::
  "extractor_env \<Rightarrow> upload \<Rightarrow> files \<Rightarrow> (exn + string) \<times> ocr_event list \<times> files" where
  "extract_pdf env file fs =
     (let tmp_path = tmp_name env;
          fs1 = fs(tmp_path \<mapsto> []) in
      case tmp_write env (getvalue file) of
        Some e \<Rightarrow> (Inl e, [], fs1)
      | None \<Rightarrow>
          (let fs2 = fs1(tmp_path \<mapsto> getvalue file) in
           case read_pdf env fs2 tmp_path of
             (r, es) \<Rightarrow> (r, es, fs2(tmp_path := None))))"

text \<open>The body of the outer \<^verbatim>\<open>try\<close>, lines 13 to 43.\<close>

definition dispatch ::
  "extractor_env \<Rightarrow> upload \<Rightarrow> files \<Rightarrow> (exn + string) \<times> ocr_event list \<times> files" where
  "dispatch env file fs =
     (if endswith (filename file) ''.txt'' then (decode_utf8 env (getvalue file), [], fs)
      else if endswith (filename file) ''.docx'' then
        (case docx_paragraphs env (getvalue file) of
           Inl e \<Rightarrow> (Inl e, [], fs)
         | Inr paras \<Rightarrow> (Inr (join_with newline paras), [], fs))
      else if endswith (filename file) ''.pdf'' then extract_pdf env file fs
      else (Inl (Exn ValueError (''Unsupported file format: '' @ filename file)), [], fs))"

text \<open>The handler of lines 45 and 46 turns every exception into a \<open>ValueError\<close>.\<close>

definition process_document ::
  "extractor_env \<Rightarrow> upload \<Rightarrow> files \<Rightarrow> (exn + string) \<times> ocr_event list \<times> files" where
  "process_document env file fs =
     (case dispatch env file fs of
        (Inl e, es, fs') \<Rightarrow>
          (Inl (Exn ValueError (''Error processing document: '' @ exn_msg e)), es, fs')
      | (Inr text, es, fs') \<Rightarrow> (Inr text, es, fs'))"

text \<open>Counting the OCR runs in a trace.\<close>

fun is_convert :: "ocr_event \<Rightarrow> bool" where
  "is_convert (ConvertFromPath p) = True"
| "is_convert (ImageToString im) = False"

text \<open>The text the whole-document OCR run appends: each image's text and a newline.\<close>

definition ocr_block :: "string list \<Rightarrow> string" where
  "ocr_block texts = concat (map (\<lambda>s. s @ [newline]) texts)"

text \<open>
  A concrete environment: a two-image scan whose pages have the given native texts, and
  a disk that takes the write or not.
\<close>

definition sample_env :: "(exn + string) list \<Rightarrow> exn option \<Rightarrow> extractor_env" where
  "sample_env pages fault =
     \<lparr>decode_utf8 = (\<lambda>bytes. Inr bytes),
      docx_paragraphs = (\<lambda>bytes. Inl (Exn KeyError ''word/document.xml'')),
      pdf_pages = (\<lambda>bytes. Inr pages),
      pdf_images = (\<lambda>bytes. Inr [''img1'', ''img2'']),
      image_to_string = (\<lambda>im. Inr (''text of '' @ im)),
      tmp_name = ''/tmp/tmpq1.pdf'',
      tmp_write = (\<lambda>bytes. fault)\<rparr>"

section \<open>Properties\<close>

subsection \<open>Document Builder\<close>

lemma strip_empty_iff: "strip s = [] \<longleftrightarrow> list_all isspace s"
proof -
  have "(\<forall>x\<in>set (dropWhile isspace s). isspace x) \<longleftrightarrow> dropWhile isspace s = []"
  proof
    assume a: "\<forall>x\<in>set (dropWhile isspace s). isspace x"
    show "dropWhile isspace s = []"
    proof (rule ccontr)
      assume n: "dropWhile isspace s \<noteq> []"
      then have "\<not> isspace (hd (dropWhile isspace s))" by (rule hd_dropWhile)
      moreover have "hd (dropWhile isspace s) \<in> set (dropWhile isspace s)" using n by simp
      ultimately show False using a by blast
    qed
  next
    assume "dropWhile isspace s = []"
    then show "\<forall>x\<in>set (dropWhile isspace s). isspace x" by (simp only: set_simps ball_empty)
  qed
  then show ?thesis
    by (simp add: strip_def list_all_iff)
qed

lemma blank_line_iff: "blank_line l \<longleftrightarrow> strip l = []"
  by (auto simp: blank_line_def strip_empty_iff)

lemma add_paragraphs_accepted:
  "list_all line_accepted ls \<Longrightarrow>
   add_paragraphs doc ls = Inr (doc @ map Paragraph (filter (\<lambda>l. \<not> blank_line l) ls))"
  by (induction ls arbitrary: doc)
     (auto simp: blank_line_iff line_accepted_def add_paragraph_def)

lemma add_paragraphs_refused:
  "\<not> list_all line_accepted ls \<Longrightarrow> add_paragraphs doc ls = Inl not_xml_compatible"
  by (induction ls arbitrary: doc)
     (auto simp: blank_line_iff line_accepted_def add_paragraph_def)

lemma split_on_nonempty: "split_on sep s \<noteq> []"
  by (induction s) (auto split: list.splits)

lemma join_split_on: "join_with sep (split_on sep s) = s"
proof (induction s)
  case Nil show ?case by simp
next
  case (Cons c cs)
  obtain l ls where eq: "split_on sep cs = l # ls"
    using split_on_nonempty [of sep cs] by (cases "split_on sep cs") auto
  with Cons show ?case by (cases ls) auto
qed

lemma split_on_no_sep: "l \<in> set (split_on sep s) \<Longrightarrow> sep \<notin> set l"
  by (induction s arbitrary: l) (auto split: if_splits list.splits)

lemmas builder_defs =
  create_word_doc_def add_paragraph_def linefeed_def strip_def isspace_def xml_char_def ustr_def

lemma create_word_doc_hello_world:
  "create_word_doc (ustr ''Hello'' @ [linefeed, linefeed] @ ustr ''World'') =
     Inr [Heading 1 (ustr ''Enhanced Document''), Paragraph (ustr ''Hello''),
          Paragraph (ustr ''World'')]"
  by (simp add: builder_defs)

lemma create_word_doc_empty: "create_word_doc [] = Inr [Heading 1 (ustr ''Enhanced Document'')]"
  by (simp add: builder_defs)

text \<open>
  Claim C8, as stated, fails: not every input string gives a document. A line that is
  kept and holds a control character, here U+0001 between two letters, makes
  \<^verbatim>\<open>add_paragraph\<close> raise, and the function, which has no handler, raises with it.
\<close>

theorem create_word_doc_raises_on_control_character:
  "create_word_doc (ustr ''a'' @ [0x01] @ ustr ''b'') =
     Inl (Exn ValueError
       ''All strings must be XML compatible: Unicode or ASCII, no NULL bytes or control characters'')"
  by (simp add: builder_defs not_xml_compatible_def)

text \<open>
  Claim C8, amended. For every input string whose lines are each blank or free of
  characters the XML tree refuses, the Document Builder emits exactly one heading,
  "Enhanced Document", followed by one paragraph for each newline-separated line that is
  not empty or all whitespace (Unicode whitespace included), in the original order; for
  every other input string it raises a \<open>ValueError\<close> and returns no document. The input
  "Hello", two newlines, "World" gives the paragraphs "Hello" and "World" only, and the
  empty string gives a document with only the heading. (What \<open>split_on\<close> computes is
  fixed by \<open>join_split_on\<close> and \<open>split_on_no_sep\<close>.)
\<close>

theorem create_word_doc_heading_then_nonblank_lines:
  "(list_all line_accepted (split_on linefeed input) \<longrightarrow>
      create_word_doc input =
        Inr (Heading 1 (ustr ''Enhanced Document'') #
             map Paragraph (filter (\<lambda>l. \<not> blank_line l) (split_on linefeed input))))
   \<and> (\<not> list_all line_accepted (split_on linefeed input) \<longrightarrow>
      create_word_doc input = Inl not_xml_compatible)
   \<and> (create_word_doc input = Inr doc \<longrightarrow> length (filter is_heading doc) = 1)
   \<and> create_word_doc (ustr ''Hello'' @ [linefeed, linefeed] @ ustr ''World'') =
       Inr [Heading 1 (ustr ''Enhanced Document''), Paragraph (ustr ''Hello''),
            Paragraph (ustr ''World'')]
   \<and> create_word_doc [] = Inr [Heading 1 (ustr ''Enhanced Document'')]"
proof -
  have a: "create_word_doc input =
        Inr (Heading 1 (ustr ''Enhanced Document'') #
             map Paragraph (filter (\<lambda>l. \<not> blank_line l) (split_on linefeed input)))"
    if "list_all line_accepted (split_on linefeed input)"
    using add_paragraphs_accepted [OF that] by (simp add: create_word_doc_def)
  have b: "create_word_doc input = Inl not_xml_compatible"
    if "\<not> list_all line_accepted (split_on linefeed input)"
    using add_paragraphs_refused [OF that] by (simp add: create_word_doc_def)
  have f: "filter is_heading (map Paragraph ls) = []" for ls
    by (induction ls) simp_all
  have c: "length (filter is_heading doc) = 1" if r: "create_word_doc input = Inr doc"
  proof (cases "list_all line_accepted (split_on linefeed input)")
    case True
    from a [OF True] r show ?thesis by (auto simp: f)
  next
    case False
    from b [OF False] r show ?thesis by simp
  qed
  from a b c create_word_doc_hello_world create_word_doc_empty show ?thesis by blast
qed

text \<open>
  The amended claim C8 on the input "Hello", a blank line of a tab and an em space
  (U+2003), "World"; and on an input with a form feed inside a kept line.
\<close>

theorem create_word_doc_heading_then_nonblank_lines_witness:
  "list_all line_accepted (split_on linefeed (ustr ''Hello'' @ [linefeed, 0x09, 0x2003, linefeed] @ ustr ''World''))
   \<and> create_word_doc (ustr ''Hello'' @ [linefeed, 0x09, 0x2003, linefeed] @ ustr ''World'') =
       Inr [Heading 1 (ustr ''Enhanced Document''), Paragraph (ustr ''Hello''),
            Paragraph (ustr ''World'')]
   \<and> length (filter is_heading [Heading 1 (ustr ''Enhanced Document''), Paragraph (ustr ''Hello''),
            Paragraph (ustr ''World'')]) = 1
   \<and> \<not> list_all line_accepted (split_on linefeed (ustr ''a'' @ [0x0C] @ ustr ''b''))
   \<and> create_word_doc (ustr ''a'' @ [0x0C] @ ustr ''b'') = Inl not_xml_compatible"
proof -
  let ?ok = "ustr ''Hello'' @ [linefeed, 0x09, 0x2003, linefeed] @ ustr ''World''"
  let ?doc = "[Heading 1 (ustr ''Enhanced Document''), Paragraph (ustr ''Hello''),
            Paragraph (ustr ''World'')]"
  let ?bad = "ustr ''a'' @ [0x0C] @ ustr ''b''"
  have h1: "list_all line_accepted (split_on linefeed ?ok)"
    by (simp add: line_accepted_def blank_line_def builder_defs)
  have h2: "\<not> list_all line_accepted (split_on linefeed ?bad)"
    by (simp add: line_accepted_def blank_line_def builder_defs)
  have e: "filter (\<lambda>l. \<not> blank_line l) (split_on linefeed ?ok) = [ustr ''Hello'', ustr ''World'']"
    by (simp add: blank_line_def builder_defs)
  note t1 = create_word_doc_heading_then_nonblank_lines [of ?ok ?doc]
  note t2 = create_word_doc_heading_then_nonblank_lines [of ?bad ?doc]
  have r1: "create_word_doc ?ok = Inr ?doc"
    using t1 h1 e by simp
  have r2: "length (filter is_heading ?doc) = 1"
    using t1 r1 by blast
  have r3: "create_word_doc ?bad = Inl not_xml_compatible"
    using t2 h2 by blast
  from h1 r1 r2 h2 r3 show ?thesis by (intro conjI)
qed

subsection \<open>Enhancement client\<close>

lemma check_ollama_connection_trace:
  assumes "check_ollama_connection b w = (ok, es, w1)"
  shows "is_check_trace es \<and> n_post w1 = n_post w"
  using assms
  by (auto simp: check_ollama_connection_def start_ollama_server_def is_check_trace_def Let_def
           split: get_result.splits if_splits)

lemma check_trace_post_timeouts: "is_check_trace es \<Longrightarrow> post_timeouts (es @ xs) = post_timeouts xs"
  by (auto simp: is_check_trace_def)

lemma check_trace_next_post: "is_check_trace es \<Longrightarrow> next_post (es @ xs) = next_post xs"
  by (auto simp: is_check_trace_def)

lemma check_trace_retry_waits: "is_check_trace es \<Longrightarrow> retry_waits (es @ xs) = retry_waits xs"
  by (auto simp: is_check_trace_def)

lemma check_trace_no_diag: "is_check_trace es \<Longrightarrow> StError m \<notin> set es"
  by (auto simp: is_check_trace_def)

lemma attempt_body_cases:
  assumes "attempt_body b text timeout w = (r, es, w1)"
  shows "\<exists>ces. is_check_trace ces \<and>
           ((r = Inl (Exn ConnectionError ''Ollama server unavailable'') \<and> es = ces
               \<and> n_post w1 = n_post w)
          \<or> (r = post_step b (n_post w) timeout (take 20000 text)
               \<and> es = ces @ [Post timeout (take 20000 text)]
               \<and> n_post w1 = n_post w + 1))"
proof -
  obtain ok ces w' where c: "check_ollama_connection b w = (ok, ces, w')"
    by (cases "check_ollama_connection b w") auto
  from check_ollama_connection_trace [OF c]
  have t: "is_check_trace ces" and p: "n_post w' = n_post w" by auto
  show ?thesis
    using assms c t p by (cases ok) (auto simp: attempt_body_def Let_def)
qed

lemma post_timeouts_append: "post_timeouts (xs @ ys) = post_timeouts xs @ post_timeouts ys"
  by (induction xs rule: post_timeouts.induct) auto

lemma retry_loop_success:
  "attempt_body b text timeout w = (Inr content, es, w1) \<Longrightarrow>
   retry_loop b text max_retries (Suc n) attempt timeout w = (Returned Line92 content, es)"
  by simp

lemma retry_loop_degrade:
  "attempt_body b text timeout w = (Inl e, es, w1) \<Longrightarrow> \<not> is_RequestException (exn_class e) \<Longrightarrow>
   retry_loop b text max_retries (Suc n) attempt timeout w =
     (Returned Line103 text, es @ [StError (''Unexpected error: '' @ exn_msg e)])"
  by simp

lemma retry_loop_reraise:
  "attempt_body b text timeout w = (Inl e, es, w1) \<Longrightarrow> is_RequestException (exn_class e) \<Longrightarrow>
   int attempt = int max_retries - 1 \<Longrightarrow>
   retry_loop b text max_retries (Suc n) attempt timeout w = (Raised e, es)"
  by simp

lemma retry_loop_retry:
  "attempt_body b text timeout w = (Inl e, es, w1) \<Longrightarrow> is_RequestException (exn_class e) \<Longrightarrow>
   int attempt \<noteq> int max_retries - 1 \<Longrightarrow>
   retry_loop b text max_retries (Suc n) attempt timeout w =
     (fst (retry_loop b text max_retries n (attempt + 1) (timeout * TIMEOUT_BACKOFF_FACTOR) w1),
      es @ Sleep (of_nat timeout * (1 / 2)) #
        snd (retry_loop b text max_retries n (attempt + 1) (timeout * TIMEOUT_BACKOFF_FACTOR) w1))"
  by (simp add: case_prod_beta)

lemma retry_loop_never_falls_through:
  "attempt + n = max_retries \<Longrightarrow> 1 \<le> n \<Longrightarrow>
   fst (retry_loop b text max_retries n attempt timeout w) \<noteq> Returned Line105 x"
proof (induction n arbitrary: attempt timeout w)
  case 0
  then show ?case by simp
next
  case (Suc n)
  obtain r es w1 where ab: "attempt_body b text timeout w = (r, es, w1)"
    by (cases "attempt_body b text timeout w") auto
  show ?case
  proof (cases r)
    case (Inr content)
    with ab show ?thesis by simp
  next
    case (Inl e)
    show ?thesis
    proof (cases "is_RequestException (exn_class e) \<and> int attempt \<noteq> int max_retries - 1")
      case False
      with ab Inl show ?thesis by auto
    next
      case True
      with Suc.prems have n: "1 \<le> n" and a: "(attempt + 1) + n = max_retries" by auto
      from Suc.IH [OF a n, of "timeout * TIMEOUT_BACKOFF_FACTOR" w1]
      show ?thesis using ab Inl True by (simp add: retry_loop_retry del: retry_loop.simps)
    qed
  qed
qed

lemma retry_loop_post_timeouts:
  "\<exists>k\<le>n. post_timeouts (snd (retry_loop b text max_retries n attempt timeout w)) = backoff timeout k"
proof (induction n arbitrary: attempt timeout w)
  case 0
  then show ?case by simp
next
  case (Suc n)
  obtain r es w1 where ab: "attempt_body b text timeout w = (r, es, w1)"
    by (cases "attempt_body b text timeout w") auto
  from attempt_body_cases [OF ab] obtain ces where ct: "is_check_trace ces"
    and es: "es = ces \<or> es = ces @ [Post timeout (take 20000 text)]" by auto
  have pt: "post_timeouts es = backoff timeout 0 \<or> post_timeouts es = backoff timeout 1"
    using es check_trace_post_timeouts [OF ct, of "[]"]
      check_trace_post_timeouts [OF ct, of "[Post timeout (take 20000 text)]"] by auto
  have pt': "post_timeouts (es @ [StError m]) = post_timeouts es" for m
    by (simp add: post_timeouts_append)
  show ?case
  proof (cases "\<exists>e. r = Inl e \<and> is_RequestException (exn_class e) \<and> int attempt \<noteq> int max_retries - 1")
    case False
    then have "post_timeouts (snd (retry_loop b text max_retries (Suc n) attempt timeout w))
               = post_timeouts es"
      using ab pt' by (cases r) auto
    with pt show ?thesis
      by (metis One_nat_def Suc_le_mono le0)
  next
    case True
    then obtain e where r: "r = Inl e" and q: "is_RequestException (exn_class e)"
      and na: "int attempt \<noteq> int max_retries - 1" by auto
    from attempt_body_cases [OF ab] r q ct
    have es2: "post_timeouts es = [timeout]"
      by (auto simp: check_trace_post_timeouts)
    obtain r' es' where rec: "retry_loop b text max_retries n (attempt + 1)
        (timeout * TIMEOUT_BACKOFF_FACTOR) w1 = (r', es')"
      by (cases "retry_loop b text max_retries n (attempt + 1) (timeout * TIMEOUT_BACKOFF_FACTOR) w1") auto
    from Suc.IH [of "attempt + 1" "timeout * TIMEOUT_BACKOFF_FACTOR" w1] rec
    obtain k where k: "k \<le> n" and pk: "post_timeouts es' = backoff (timeout * TIMEOUT_BACKOFF_FACTOR) k"
      by auto
    have "post_timeouts (snd (retry_loop b text max_retries (Suc n) attempt timeout w))
          = backoff timeout (Suc k)"
      using ab r q na rec es2 pk by (simp add: retry_loop_retry post_timeouts_append del: retry_loop.simps)
    with k show ?thesis by (metis Suc_le_mono)
  qed
qed

lemma backoff_last_Suc:
  "1 \<le> n \<Longrightarrow> last (backoff t (Suc n)) = last (backoff (t * TIMEOUT_BACKOFF_FACTOR) n)"
  by (cases n) auto

lemma retry_loop_raised:
  "attempt + n = max_retries \<Longrightarrow>
   retry_loop b text max_retries n attempt timeout w = (Raised e, evs) \<Longrightarrow>
   is_RequestException (exn_class e) \<and> post_timeouts evs = backoff timeout n
     \<and> evs \<noteq> [] \<and> last evs = Post (last (backoff timeout n)) (take 20000 text)"
proof (induction n arbitrary: attempt timeout w evs)
  case 0
  then show ?case by simp
next
  case (Suc n)
  obtain r es w1 where ab: "attempt_body b text timeout w = (r, es, w1)"
    by (cases "attempt_body b text timeout w") auto
  from attempt_body_cases [OF ab] obtain ces where ct: "is_check_trace ces"
    and es: "(r = Inl (Exn ConnectionError ''Ollama server unavailable'') \<and> es = ces)
             \<or> es = ces @ [Post timeout (take 20000 text)]" by auto
  show ?case
  proof (cases r)
    case (Inr content)
    with ab Suc.prems show ?thesis by simp
  next
    case (Inl e')
    show ?thesis
    proof (cases "is_RequestException (exn_class e')")
      case False
      with ab Inl Suc.prems show ?thesis by simp
    next
      case q: True
      with es Inl have es2: "es = ces @ [Post timeout (take 20000 text)]" by auto
      show ?thesis
      proof (cases "int attempt = int max_retries - 1")
        case True
        with Suc.prems(1) have n0: "n = 0" by simp
        from retry_loop_reraise [OF ab [unfolded Inl] q True, of n] Suc.prems(2)
        have "e = e'" "evs = es" by auto
        with q es2 n0 check_trace_post_timeouts [OF ct, of "[]"] show ?thesis by (simp add: post_timeouts_append)
      next
        case False
        let ?rec = "retry_loop b text max_retries n (attempt + 1) (timeout * TIMEOUT_BACKOFF_FACTOR) w1"
        from retry_loop_retry [OF ab [unfolded Inl] q False, of n] Suc.prems(2)
        have f: "fst ?rec = Raised e" and ev: "evs = es @ Sleep (of_nat timeout * (1 / 2)) # snd ?rec"
          by auto
        have a: "(attempt + 1) + n = max_retries" using Suc.prems(1) by simp
        have "?rec = (Raised e, snd ?rec)" using f by (cases ?rec) auto
        from Suc.IH [OF a this]
        have ih: "is_RequestException (exn_class e)"
          "post_timeouts (snd ?rec) = backoff (timeout * TIMEOUT_BACKOFF_FACTOR) n"
          "snd ?rec \<noteq> []"
          "last (snd ?rec) = Post (last (backoff (timeout * TIMEOUT_BACKOFF_FACTOR) n)) (take 20000 text)"
          by auto
        from ih(2,3) have n1: "1 \<le> n" by (cases n) auto
        have p: "post_timeouts evs = backoff timeout (Suc n)"
          using ev es2 ih(2) check_trace_post_timeouts [OF ct, of "[]"] by (simp add: post_timeouts_append)
        have l: "last evs = Post (last (backoff timeout (Suc n))) (take 20000 text)"
          using ev ih(3,4) backoff_last_Suc [OF n1, of timeout] by simp
        from ih(1) p l ev show ?thesis by simp
      qed
    qed
  qed
qed

lemma retry_loop_final_failure:
  "attempt + n = max_retries \<Longrightarrow> 1 \<le> n \<Longrightarrow>
   length (post_timeouts (snd (retry_loop b text max_retries n attempt timeout w))) = n \<Longrightarrow>
   post_step b (n_post w + n - 1) (last (backoff timeout n)) (take 20000 text) = Inl e \<Longrightarrow>
   is_RequestException (exn_class e) \<Longrightarrow>
   fst (retry_loop b text max_retries n attempt timeout w) = Raised e"
proof (induction n arbitrary: attempt timeout w)
  case 0
  then show ?case by simp
next
  case (Suc n)
  obtain r es w1 where ab: "attempt_body b text timeout w = (r, es, w1)"
    by (cases "attempt_body b text timeout w") auto
  from attempt_body_cases [OF ab] obtain ces where ct: "is_check_trace ces"
    and es: "(r = Inl (Exn ConnectionError ''Ollama server unavailable'') \<and> es = ces
               \<and> n_post w1 = n_post w)
          \<or> (r = post_step b (n_post w) timeout (take 20000 text)
               \<and> es = ces @ [Post timeout (take 20000 text)]
               \<and> n_post w1 = n_post w + 1)" by auto
  have pces: "post_timeouts ces = []"
    using check_trace_post_timeouts [OF ct, of "[]"] by simp
  show ?case
  proof (cases "\<exists>e'. r = Inl e' \<and> is_RequestException (exn_class e') \<and> int attempt \<noteq> int max_retries - 1")
    case True
    then obtain e' where r: "r = Inl e'" and q: "is_RequestException (exn_class e')"
      and na: "int attempt \<noteq> int max_retries - 1" by auto
    let ?rec = "retry_loop b text max_retries n (attempt + 1) (timeout * TIMEOUT_BACKOFF_FACTOR) w1"
    note step = retry_loop_retry [OF ab [unfolded r] q na, of n]
    from es r q have es2: "es = ces @ [Post timeout (take 20000 text)]"
      and np: "n_post w1 = n_post w + 1" by auto
    from na Suc.prems(1) have n1: "1 \<le> n" by auto
    have a: "(attempt + 1) + n = max_retries" using Suc.prems(1) by simp
    have len: "length (post_timeouts (snd ?rec)) = n"
      using Suc.prems(3) step es2 pces by (simp add: post_timeouts_append del: retry_loop.simps)
    have ps: "post_step b (n_post w1 + n - 1) (last (backoff (timeout * TIMEOUT_BACKOFF_FACTOR) n))
                (take 20000 text) = Inl e"
      using Suc.prems(4) np n1 backoff_last_Suc [OF n1, of timeout] by simp
    from Suc.IH [OF a n1 len ps Suc.prems(5)] step show ?thesis by simp
  next
    case False
    have short: "snd (retry_loop b text max_retries (Suc n) attempt timeout w) = es
        \<or> (\<exists>m. snd (retry_loop b text max_retries (Suc n) attempt timeout w) = es @ [StError m])"
      using ab False by (cases r) auto
    then have "length (post_timeouts (snd (retry_loop b text max_retries (Suc n) attempt timeout w)))
        = length (post_timeouts es)"
      by (auto simp: post_timeouts_append)
    with Suc.prems(3) have le: "length (post_timeouts es) = Suc n" by simp
    with es pces have es2: "es = ces @ [Post timeout (take 20000 text)]"
      and r: "r = post_step b (n_post w) timeout (take 20000 text)" by auto
    from le es2 pces have n0: "n = 0" by (simp add: post_timeouts_append)
    with Suc.prems(4) r have re: "r = Inl e" by simp
    with False Suc.prems(5) have "int attempt = int max_retries - 1" by auto
    from retry_loop_reraise [OF ab [unfolded re] Suc.prems(5) this] show ?thesis by simp
  qed
qed

lemma retry_loop_next_post:
  "next_post (snd (retry_loop b text max_retries n attempt timeout w)) = None
   \<or> next_post (snd (retry_loop b text max_retries n attempt timeout w)) = Some timeout"
proof (cases n)
  case 0
  then show ?thesis by simp
next
  case (Suc m)
  obtain r es w1 where ab: "attempt_body b text timeout w = (r, es, w1)"
    by (cases "attempt_body b text timeout w") auto
  from attempt_body_cases [OF ab] obtain ces where ct: "is_check_trace ces"
    and es0: "(r = Inl (Exn ConnectionError ''Ollama server unavailable'') \<and> es = ces)
             \<or> es = ces @ [Post timeout (take 20000 text)]" by auto
  then have es: "es = ces \<or> es = ces @ [Post timeout (take 20000 text)]" by auto
  have "\<exists>rest. snd (retry_loop b text max_retries (Suc m) attempt timeout w) = es @ rest
          \<and> (es = ces \<longrightarrow> (\<exists>x. rest = [] \<or> rest = [StError x]))"
  proof (cases r)
    case (Inr c)
    with ab show ?thesis by simp
  next
    case (Inl e)
    show ?thesis
    proof (cases "is_RequestException (exn_class e)")
      case False
      with ab Inl show ?thesis by simp
    next
      case True
      from es0 Inl True have ne: "es \<noteq> ces" by auto
      show ?thesis
      proof (cases "int attempt = int max_retries - 1")
        case a: True
        show ?thesis using retry_loop_reraise [OF ab [unfolded Inl] True a, of m] by simp
      next
        case a: False
        show ?thesis using retry_loop_retry [OF ab [unfolded Inl] True a, of m] ne by simp
      qed
    qed
  qed
  then obtain rest where ev: "snd (retry_loop b text max_retries (Suc m) attempt timeout w) = es @ rest"
    and r: "es = ces \<longrightarrow> (\<exists>x. rest = [] \<or> rest = [StError x])" by blast
  show ?thesis
  proof (cases "es = ces")
    case True
    with r ev ct Suc show ?thesis by (auto simp: check_trace_next_post)
  next
    case False
    with es have "es = ces @ [Post timeout (take 20000 text)]" by simp
    with ev ct Suc show ?thesis by (simp add: check_trace_next_post)
  qed
qed

lemma retry_loop_waits:
  "(t0, d, nx) \<in> set (retry_waits (snd (retry_loop b text max_retries n attempt timeout w))) \<Longrightarrow>
   d = of_nat t0 / 2 \<and> (nx = None \<or> nx = Some (t0 * TIMEOUT_BACKOFF_FACTOR))"
proof (induction n arbitrary: attempt timeout w)
  case 0
  then show ?case by simp
next
  case (Suc n)
  obtain r es w1 where ab: "attempt_body b text timeout w = (r, es, w1)"
    by (cases "attempt_body b text timeout w") auto
  from attempt_body_cases [OF ab] obtain ces where ct: "is_check_trace ces"
    and es: "(r = Inl (Exn ConnectionError ''Ollama server unavailable'') \<and> es = ces)
             \<or> es = ces @ [Post timeout (take 20000 text)]" by auto
  have nowait: "retry_waits es = []" "retry_waits (es @ [StError m]) = []" for m
    using es check_trace_retry_waits [OF ct, of "[]"]
      check_trace_retry_waits [OF ct, of "[StError m]"]
      check_trace_retry_waits [OF ct, of "[Post timeout (take 20000 text)]"]
      check_trace_retry_waits [OF ct, of "[Post timeout (take 20000 text), StError m]"] by auto
  show ?case
  proof (cases "\<exists>e. r = Inl e \<and> is_RequestException (exn_class e) \<and> int attempt \<noteq> int max_retries - 1")
    case False
    then have "retry_waits (snd (retry_loop b text max_retries (Suc n) attempt timeout w)) = []"
      using ab nowait by (cases r) auto
    with Suc.prems show ?thesis by simp
  next
    case True
    then obtain e where r: "r = Inl e" and q: "is_RequestException (exn_class e)"
      and na: "int attempt \<noteq> int max_retries - 1" by auto
    let ?rec = "retry_loop b text max_retries n (attempt + 1) (timeout * TIMEOUT_BACKOFF_FACTOR) w1"
    from es r q have es2: "es = ces @ [Post timeout (take 20000 text)]" by auto
    have "retry_waits (snd (retry_loop b text max_retries (Suc n) attempt timeout w))
          = (timeout, of_nat timeout * (1 / 2), next_post (snd ?rec)) # retry_waits (snd ?rec)"
      using retry_loop_retry [OF ab [unfolded r] q na, of n] es2 check_trace_retry_waits [OF ct]
      by simp
    with Suc.prems have "(t0, d, nx) = (timeout, of_nat timeout * (1 / 2), next_post (snd ?rec))
        \<or> (t0, d, nx) \<in> set (retry_waits (snd ?rec))" by simp
    then show ?thesis
    proof
      assume "(t0, d, nx) = (timeout, of_nat timeout * (1 / 2), next_post (snd ?rec))"
      then show ?thesis
        using retry_loop_next_post [of b "text" max_retries n "attempt + 1" "timeout * TIMEOUT_BACKOFF_FACTOR" w1]
        by auto
    next
      assume "(t0, d, nx) \<in> set (retry_waits (snd ?rec))"
      then show ?thesis by (rule Suc.IH)
    qed
  qed
qed

lemma retry_loop_diagnostic:
  "StError m \<in> set (snd (retry_loop b text max_retries n attempt timeout w)) \<Longrightarrow>
   fst (retry_loop b text max_retries n attempt timeout w) = Returned Line103 text
   \<and> last (snd (retry_loop b text max_retries n attempt timeout w)) = StError m"
proof (induction n arbitrary: attempt timeout w)
  case 0
  then show ?case by simp
next
  case (Suc n)
  obtain r es w1 where ab: "attempt_body b text timeout w = (r, es, w1)"
    by (cases "attempt_body b text timeout w") auto
  from attempt_body_cases [OF ab] obtain ces where ct: "is_check_trace ces"
    and es: "es = ces \<or> es = ces @ [Post timeout (take 20000 text)]" by auto
  have nd: "StError m \<notin> set es"
    using es check_trace_no_diag [OF ct, of m] by auto
  show ?case
  proof (cases r)
    case (Inr c)
    with ab Suc.prems nd show ?thesis by simp
  next
    case (Inl e)
    show ?thesis
    proof (cases "is_RequestException (exn_class e)")
      case False
      from retry_loop_degrade [OF ab [unfolded Inl] False, of max_retries n attempt] Suc.prems nd
      show ?thesis by auto
    next
      case True
      show ?thesis
      proof (cases "int attempt = int max_retries - 1")
        case a: True
        show ?thesis using retry_loop_reraise [OF ab [unfolded Inl] True a, of n] Suc.prems nd by simp
      next
        case a: False
        let ?rec = "retry_loop b text max_retries n (attempt + 1) (timeout * TIMEOUT_BACKOFF_FACTOR) w1"
        note step = retry_loop_retry [OF ab [unfolded Inl] True a, of n]
        from Suc.prems step nd have "StError m \<in> set (snd ?rec)" by auto
        from Suc.IH [OF this] this step show ?thesis by auto
      qed
    qed
  qed
qed

lemmas client_defs =
  enhance_text_with_ollama_def MAX_RETRIES_def INITIAL_TIMEOUT_def TIMEOUT_BACKOFF_FACTOR_def
  attempt_body_def check_ollama_connection_def start_ollama_server_def post_step_def
  idle_world_def numeral_3_eq_3

text \<open>
  Claim C1, as stated, fails: against a backend whose every probe raises, the call does
  not fail. The \<open>ConnectionError\<close> raised at line 66 is the builtin class, which the
  handler of line 94 does not catch and the handler of line 101 does, so the call returns
  the input text through line 103.
\<close>

theorem unreachable_backend_call_returns:
  "fst (enhance_text_with_ollama unreachable_backend ''memo'' idle_world) = Returned Line103 ''memo''"
  by (simp add: client_defs unreachable_backend_def)

text \<open>
  Claim C1, amended. For every enhancement call against a backend whose every liveness
  probe raises, the call makes exactly one probe, one launch and (when the launch
  succeeds) the waits of 3 and 5 and one more probe, issues no generation request, emits
  one diagnostic and returns the original input text unchanged.
\<close>

theorem unreachable_degrades_after_one_cycle:
  assumes "\<forall>i. get_tags b i = GetRaises"
  shows "enhance_text_with_ollama b text w =
     (Returned Line103 text,
      if popen b (n_popen w)
      then [Get 5, Popen, Sleep 3, Sleep 5, Get 5,
            StError ''Unexpected error: Ollama server unavailable'']
      else [Get 5, Popen, StError ''Unexpected error: Ollama server unavailable''])"
  using assms by (simp add: client_defs)

text \<open>The amended claim C1 at a concrete unreachable backend.\<close>

theorem unreachable_degrades_after_one_cycle_witness:
  "(\<forall>i. get_tags unreachable_backend i = GetRaises) \<and>
   enhance_text_with_ollama unreachable_backend ''draft'' idle_world =
     (Returned Line103 ''draft'',
      [Get 5, Popen, Sleep 3, Sleep 5, Get 5,
       StError ''Unexpected error: Ollama server unavailable''])"
proof -
  have h: "\<forall>i. get_tags unreachable_backend i = GetRaises"
    by (simp add: unreachable_backend_def)
  show ?thesis
    using h unreachable_degrades_after_one_cycle [OF h, of "''draft''" idle_world]
    by (simp add: unreachable_backend_def idle_world_def)
qed

text \<open>
  Claim C2. For every enhancement call at most 3 requests are made and their timeouts
  are 30, 60, 120 in this order; the call raises only a transport error, only after the
  third request, which is then the last thing it did; and when the third request fails
  with a transport error, that error is raised to the caller.
\<close>

theorem attempts_bounded_timeouts_double:
  "(post_timeouts (snd (enhance_text_with_ollama b text w)) = []
      \<or> post_timeouts (snd (enhance_text_with_ollama b text w)) = [30]
      \<or> post_timeouts (snd (enhance_text_with_ollama b text w)) = [30, 60]
      \<or> post_timeouts (snd (enhance_text_with_ollama b text w)) = [30, 60, 120])
   \<and> (fst (enhance_text_with_ollama b text w) = Raised e \<longrightarrow>
        is_RequestException (exn_class e)
        \<and> post_timeouts (snd (enhance_text_with_ollama b text w)) = [30, 60, 120]
        \<and> last (snd (enhance_text_with_ollama b text w)) = Post 120 (take 20000 text))
   \<and> (post_timeouts (snd (enhance_text_with_ollama b text w)) = [30, 60, 120]
        \<and> post_step b (n_post w + 2) 120 (take 20000 text) = Inl e'
        \<and> is_RequestException (exn_class e') \<longrightarrow>
        fst (enhance_text_with_ollama b text w) = Raised e')"
proof -
  let ?E = "enhance_text_with_ollama b text w"
  have b3: "backoff 30 3 = [30, 60, 120]"
    by (simp add: numeral_3_eq_3 TIMEOUT_BACKOFF_FACTOR_def)
  from retry_loop_post_timeouts [of 3 b "text" 3 0 30 w]
  obtain k where k: "k \<le> 3" and pk: "post_timeouts (snd ?E) = backoff 30 k"
    by (auto simp: enhance_text_with_ollama_def MAX_RETRIES_def INITIAL_TIMEOUT_def)
  from k have "k = 0 \<or> k = 1 \<or> k = 2 \<or> k = 3" by auto
  then have "backoff 30 k = [] \<or> backoff 30 k = [30] \<or> backoff 30 k = [30, 60]
      \<or> backoff 30 k = [30, 60, 120]"
    by (auto simp: numeral_3_eq_3 numeral_2_eq_2 TIMEOUT_BACKOFF_FACTOR_def)
  with pk have A: "post_timeouts (snd ?E) = [] \<or> post_timeouts (snd ?E) = [30]
      \<or> post_timeouts (snd ?E) = [30, 60] \<or> post_timeouts (snd ?E) = [30, 60, 120]"
    by simp
  have B: "is_RequestException (exn_class e) \<and> post_timeouts (snd ?E) = [30, 60, 120]
        \<and> last (snd ?E) = Post 120 (take 20000 text)" if r: "fst ?E = Raised e"
  proof -
    have "retry_loop b text 3 3 0 30 w = (Raised e, snd ?E)"
      using r by (cases ?E) (auto simp: enhance_text_with_ollama_def MAX_RETRIES_def INITIAL_TIMEOUT_def)
    from retry_loop_raised [OF _ this] b3 show ?thesis by simp
  qed
  have C: "fst ?E = Raised e'" if p: "post_timeouts (snd ?E) = [30, 60, 120]"
     and s: "post_step b (n_post w + 2) 120 (take 20000 text) = Inl e'"
     and q: "is_RequestException (exn_class e')"
  proof -
    have l: "length (post_timeouts (snd (retry_loop b text 3 3 0 30 w))) = 3"
      using p by (simp add: enhance_text_with_ollama_def MAX_RETRIES_def INITIAL_TIMEOUT_def)
    have s': "post_step b (n_post w + 3 - 1) (last (backoff 30 3)) (take 20000 text) = Inl e'"
      using s b3 by simp
    from retry_loop_final_failure [OF _ _ l s' q]
    show ?thesis by (simp add: enhance_text_with_ollama_def MAX_RETRIES_def INITIAL_TIMEOUT_def)
  qed
  from A B C show ?thesis by blast
qed

text \<open>Claim C2 at a backend that answers every request with status 503.\<close>

theorem attempts_bounded_timeouts_double_witness:
  "fst (enhance_text_with_ollama failing_backend ''draft'' idle_world)
     = Raised (Exn HTTPError ''Service Unavailable'')
   \<and> post_timeouts (snd (enhance_text_with_ollama failing_backend ''draft'' idle_world)) = [30, 60, 120]
   \<and> last (snd (enhance_text_with_ollama failing_backend ''draft'' idle_world)) = Post 120 ''draft''
   \<and> post_step failing_backend (n_post idle_world + 2) 120 (take 20000 ''draft'')
       = Inl (Exn HTTPError ''Service Unavailable'')"
  using attempts_bounded_timeouts_double [of failing_backend "''draft''" idle_world
      "Exn HTTPError ''Service Unavailable''" "Exn HTTPError ''Service Unavailable''"]
  by (simp add: client_defs failing_backend_def)

lemma no_post_split:
  "post_timeouts ces = [] \<Longrightarrow> ces @ xs = pre @ Post t s # rest \<Longrightarrow>
   \<exists>pre'. pre = ces @ pre' \<and> xs = pre' @ Post t s # rest"
proof (induction ces arbitrary: pre)
  case Nil
  then show ?case by simp
next
  case (Cons c cs)
  from Cons.prems(1) have c: "c \<noteq> Post t s" and cs: "post_timeouts cs = []"
    by (cases c; simp)+
  from Cons.prems(2) c obtain pre0 where p: "pre = c # pre0"
    and q: "cs @ xs = pre0 @ Post t s # rest"
    by (cases pre) auto
  from Cons.IH [OF cs q] p show ?case by auto
qed

lemma check_trace_split:
  assumes "is_check_trace ces" and "ces @ xs = pre @ Post t s # rest"
  shows "\<exists>pre'. pre = ces @ pre' \<and> xs = pre' @ Post t s # rest"
  using no_post_split [OF _ assms(2)] check_trace_post_timeouts [OF assms(1), of "[]"]
  by simp

lemma retry_loop_starts_with_check:
  assumes "1 \<le> n"
  shows "\<exists>ces rest'. snd (retry_loop b text max_retries n attempt timeout w) = ces @ rest'
           \<and> is_check_trace ces
           \<and> ((\<exists>m. rest' = [StError m]) \<or> (\<exists>r. rest' = Post timeout (take 20000 text) # r))"
proof -
  from assms obtain k where n: "n = Suc k" by (cases n) auto
  obtain r es w1 where ab: "attempt_body b text timeout w = (r, es, w1)"
    by (cases "attempt_body b text timeout w") auto
  from attempt_body_cases [OF ab] obtain ces where ct: "is_check_trace ces"
    and es: "(r = Inl (Exn ConnectionError ''Ollama server unavailable'') \<and> es = ces)
             \<or> es = ces @ [Post timeout (take 20000 text)]" by auto
  let ?evs = "snd (retry_loop b text max_retries (Suc k) attempt timeout w)"
  have "(\<exists>m. ?evs = ces @ [StError m]) \<or> (\<exists>r'. ?evs = ces @ Post timeout (take 20000 text) # r')"
  proof (cases r)
    case (Inr c)
    with es have "es = ces @ [Post timeout (take 20000 text)]" by auto
    with retry_loop_success [OF ab [unfolded Inr], of max_retries k attempt] show ?thesis by simp
  next
    case (Inl e)
    show ?thesis
    proof (cases "is_RequestException (exn_class e)")
      case False
      from retry_loop_degrade [OF ab [unfolded Inl] False, of max_retries k attempt] es
      show ?thesis by auto
    next
      case True
      with es Inl have e2: "es = ces @ [Post timeout (take 20000 text)]" by auto
      show ?thesis
      proof (cases "int attempt = int max_retries - 1")
        case a: True
        from retry_loop_reraise [OF ab [unfolded Inl] True a, of k] e2 show ?thesis by simp
      next
        case a: False
        from retry_loop_retry [OF ab [unfolded Inl] True a, of k] e2 show ?thesis by simp
      qed
    qed
  qed
  with ct n show ?thesis by blast
qed

lemma retry_loop_after_post:
  "attempt + n = max_retries \<Longrightarrow>
   snd (retry_loop b text max_retries n attempt timeout w) = pre @ Post t s # rest \<Longrightarrow>
   s = take 20000 text
   \<and> (\<forall>c. post_step b (n_post w + length (post_timeouts pre)) t s = Inr c \<longrightarrow>
          rest = [] \<and> fst (retry_loop b text max_retries n attempt timeout w) = Returned Line92 c)
   \<and> (\<forall>e. post_step b (n_post w + length (post_timeouts pre)) t s = Inl e
            \<and> \<not> is_RequestException (exn_class e) \<longrightarrow>
          rest = [StError (''Unexpected error: '' @ exn_msg e)]
          \<and> fst (retry_loop b text max_retries n attempt timeout w) = Returned Line103 text)
   \<and> (\<forall>e. post_step b (n_post w + length (post_timeouts pre)) t s = Inl e
            \<and> is_RequestException (exn_class e) \<longrightarrow>
          (rest = [] \<and> fst (retry_loop b text max_retries n attempt timeout w) = Raised e)
          \<or> (\<exists>ces rest'. rest = Sleep (of_nat t / 2) # ces @ rest' \<and> is_check_trace ces
                \<and> ((\<exists>m. rest' = [StError m])
                     \<or> (\<exists>r. rest' = Post (2 * t) (take 20000 text) # r))))"
proof (induction n arbitrary: attempt timeout w pre)
  case 0
  then show ?case by simp
next
  case (Suc n)
  let ?sent = "take 20000 text"
  let ?L = "retry_loop b text max_retries (Suc n) attempt timeout w"
  obtain r es w1 where ab: "attempt_body b text timeout w = (r, es, w1)"
    by (cases "attempt_body b text timeout w") auto
  from attempt_body_cases [OF ab] obtain ces where ct: "is_check_trace ces"
    and es: "(r = Inl (Exn ConnectionError ''Ollama server unavailable'') \<and> es = ces
               \<and> n_post w1 = n_post w)
          \<or> (r = post_step b (n_post w) timeout ?sent
               \<and> es = ces @ [Post timeout ?sent]
               \<and> n_post w1 = n_post w + 1)" by auto
  have pces: "post_timeouts ces = []"
    using check_trace_post_timeouts [OF ct, of "[]"] by simp
  show ?case
  proof (cases "es = ces")
    case True
    with es have r: "r = Inl (Exn ConnectionError ''Ollama server unavailable'')" by auto
    have "snd ?L = ces @ [StError ''Unexpected error: Ollama server unavailable'']"
      using retry_loop_degrade [OF ab [unfolded r], of max_retries n attempt] True by simp
    with Suc.prems(2) have "ces @ [StError ''Unexpected error: Ollama server unavailable'']
        = pre @ Post t s # rest" by simp
    from check_trace_split [OF ct this] obtain pre' where
      "[StError ''Unexpected error: Ollama server unavailable''] = pre' @ Post t s # rest" by auto
    then have False by (cases pre') auto
    then show ?thesis ..
  next
    case False
    with es have r: "r = post_step b (n_post w) timeout ?sent"
      and es2: "es = ces @ [Post timeout ?sent]" and np: "n_post w1 = n_post w + 1" by auto
    obtain tail where ev: "snd ?L = ces @ Post timeout ?sent # tail"
      and tl: "(\<exists>c. r = Inr c \<and> tail = [] \<and> fst ?L = Returned Line92 c)
        \<or> (\<exists>e. r = Inl e \<and> \<not> is_RequestException (exn_class e)
              \<and> tail = [StError (''Unexpected error: '' @ exn_msg e)]
              \<and> fst ?L = Returned Line103 text)
        \<or> (\<exists>e. r = Inl e \<and> is_RequestException (exn_class e)
              \<and> int attempt = int max_retries - 1 \<and> tail = [] \<and> fst ?L = Raised e)
        \<or> (\<exists>e. r = Inl e \<and> is_RequestException (exn_class e)
              \<and> int attempt \<noteq> int max_retries - 1
              \<and> tail = Sleep (of_nat timeout / 2) #
                    snd (retry_loop b text max_retries n (attempt + 1) (timeout * 2) w1)
              \<and> fst ?L = fst (retry_loop b text max_retries n (attempt + 1) (timeout * 2) w1))"
    proof (cases r)
      case (Inr c)
      from retry_loop_success [OF ab [unfolded Inr], of max_retries n attempt] es2 Inr
      show ?thesis by (intro that [of "[]"]) auto
    next
      case (Inl e)
      show ?thesis
      proof (cases "is_RequestException (exn_class e)")
        case q: False
        from retry_loop_degrade [OF ab [unfolded Inl] q, of max_retries n attempt] es2 Inl q
        show ?thesis
          by (intro that [of "[StError (''Unexpected error: '' @ exn_msg e)]"]) auto
      next
        case q: True
        show ?thesis
        proof (cases "int attempt = int max_retries - 1")
          case a: True
          from retry_loop_reraise [OF ab [unfolded Inl] q a, of n] es2 Inl q a
          show ?thesis by (intro that [of "[]"]) auto
        next
          case a: False
          from retry_loop_retry [OF ab [unfolded Inl] q a, of n] es2 Inl q a
          show ?thesis
            by (intro that [of "Sleep (of_nat timeout / 2) #
                    snd (retry_loop b text max_retries n (attempt + 1) (timeout * 2) w1)"])
               (auto simp: TIMEOUT_BACKOFF_FACTOR_def)
        qed
      qed
    qed
    from ev Suc.prems(2) have "ces @ Post timeout ?sent # tail = pre @ Post t s # rest" by simp
    from check_trace_split [OF ct this] obtain pre' where pre: "pre = ces @ pre'"
      and sp: "Post timeout ?sent # tail = pre' @ Post t s # rest" by auto
    show ?thesis
    proof (cases pre')
      case Nil
      with sp have t: "t = timeout" and s: "s = ?sent" and rt: "rest = tail" by auto
      from pre Nil pces have ix: "n_post w + length (post_timeouts pre) = n_post w" by simp
      have ps: "post_step b (n_post w + length (post_timeouts pre)) t s = r"
        unfolding ix t s r ..
      have next_attempt: "\<exists>ces' rest'. snd (retry_loop b text max_retries n (attempt + 1) (timeout * 2) w1)
              = ces' @ rest' \<and> is_check_trace ces'
              \<and> ((\<exists>m. rest' = [StError m]) \<or> (\<exists>r. rest' = Post (2 * timeout) ?sent # r))"
        if "int attempt \<noteq> int max_retries - 1"
      proof -
        from that Suc.prems(1) have "1 \<le> n" by auto
        from retry_loop_starts_with_check [OF this, of b "text" max_retries "attempt + 1" "timeout * 2" w1]
        show ?thesis by (simp add: mult.commute)
      qed
      from tl show ?thesis
      proof (elim disjE exE conjE)
        fix c assume "r = Inr c" "tail = []" "fst ?L = Returned Line92 c"
        with ps s rt show ?thesis by (simp del: retry_loop.simps)
      next
        fix e assume "r = Inl e" "\<not> is_RequestException (exn_class e)"
          "tail = [StError (''Unexpected error: '' @ exn_msg e)]" "fst ?L = Returned Line103 text"
        with ps s rt show ?thesis by (auto simp del: retry_loop.simps)
      next
        fix e assume "r = Inl e" "is_RequestException (exn_class e)"
          "int attempt = int max_retries - 1" "tail = []" "fst ?L = Raised e"
        with ps s rt show ?thesis by (auto simp del: retry_loop.simps)
      next
        fix e assume a: "r = Inl e" "is_RequestException (exn_class e)"
          "int attempt \<noteq> int max_retries - 1"
          "tail = Sleep (of_nat timeout / 2) #
                    snd (retry_loop b text max_retries n (attempt + 1) (timeout * 2) w1)"
        from next_attempt [OF a(3)] obtain ces' rest' where
          n1: "snd (retry_loop b text max_retries n (attempt + 1) (timeout * 2) w1) = ces' @ rest'"
          and n2: "is_check_trace ces'"
          and n3: "(\<exists>m. rest' = [StError m]) \<or> (\<exists>r. rest' = Post (2 * timeout) ?sent # r)"
          by blast
        have "\<exists>ces rest'. rest = Sleep (of_nat t / 2) # ces @ rest' \<and> is_check_trace ces
                \<and> ((\<exists>m. rest' = [StError m])
                     \<or> (\<exists>r. rest' = Post (2 * t) ?sent # r))"
          using a(4) rt t n1 n2 n3 by auto
        with a(1,2) ps s show ?thesis by (auto simp del: retry_loop.simps)
      qed
    next
      case (Cons p pre'')
      with sp have tl2: "tail = pre'' @ Post t s # rest" by simp
      have imp1: "tail \<noteq> []" using tl2 by simp
      have imp2: "tail \<noteq> [StError m]" for m using tl2 by (cases pre'') auto
      from tl imp1 imp2 obtain e where re: "r = Inl e" and q: "is_RequestException (exn_class e)"
        and a: "int attempt \<noteq> int max_retries - 1"
        and tl3: "tail = Sleep (of_nat timeout / 2) #
                    snd (retry_loop b text max_retries n (attempt + 1) (timeout * 2) w1)"
        and fl: "fst ?L = fst (retry_loop b text max_retries n (attempt + 1) (timeout * 2) w1)"
        by blast
      from tl2 tl3 obtain p3 where p3: "pre'' = Sleep (of_nat timeout / 2) # p3"
        and rec: "snd (retry_loop b text max_retries n (attempt + 1) (timeout * 2) w1)
                    = p3 @ Post t s # rest"
        by (cases pre'') auto
      have inv: "(attempt + 1) + n = max_retries" using Suc.prems(1) by simp
      from sp Cons have p: "p = Post timeout ?sent" by simp
      have ix: "n_post w + length (post_timeouts pre) = n_post w1 + length (post_timeouts p3)"
        using pre Cons p p3 pces np by (simp add: post_timeouts_append)
      show ?thesis
        unfolding ix fl by (rule Suc.IH [OF inv rec])
    qed
  qed
qed

lemma enhance_after_post:
  assumes "snd (enhance_text_with_ollama b text w) = pre @ Post t s # rest"
  shows "s = take 20000 text
   \<and> (\<forall>c. post_step b (n_post w + length (post_timeouts pre)) t s = Inr c \<longrightarrow>
          rest = [] \<and> fst (enhance_text_with_ollama b text w) = Returned Line92 c)
   \<and> (\<forall>e. post_step b (n_post w + length (post_timeouts pre)) t s = Inl e
            \<and> \<not> is_RequestException (exn_class e) \<longrightarrow>
          rest = [StError (''Unexpected error: '' @ exn_msg e)]
          \<and> fst (enhance_text_with_ollama b text w) = Returned Line103 text)
   \<and> (\<forall>e. post_step b (n_post w + length (post_timeouts pre)) t s = Inl e
            \<and> is_RequestException (exn_class e) \<longrightarrow>
          (rest = [] \<and> fst (enhance_text_with_ollama b text w) = Raised e)
          \<or> (\<exists>ces rest'. rest = Sleep (of_nat t / 2) # ces @ rest' \<and> is_check_trace ces
                \<and> ((\<exists>m. rest' = [StError m])
                     \<or> (\<exists>r. rest' = Post (2 * t) (take 20000 text) # r))))"
  using assms unfolding enhance_text_with_ollama_def
  by (intro retry_loop_after_post) simp_all

text \<open>
  Claim C3, as stated, fails: when the first request times out and the second succeeds,
  the sleep before the request that uses timeout 60 is 15 (half of the 30 that just
  failed), not 30.
\<close>

theorem retry_sleep_not_half_of_next_timeout:
  "snd (enhance_text_with_ollama flaky_backend ''draft'' idle_world) =
     [Get 5, Post 30 ''draft'', Sleep 15, Get 5, Post 60 ''draft'']
   \<and> retry_waits (snd (enhance_text_with_ollama flaky_backend ''draft'' idle_world)) =
     [(30, 15, Some 60)]
   \<and> (15 :: rat) \<noteq> of_nat 60 / 2"
  by (simp add: client_defs flaky_backend_def)

text \<open>
  Claim C3, amended. For every retried enhancement attempt, the sleep before the next
  attempt equals half the timeout of the attempt that just failed, and the next request,
  if one is made, uses twice that timeout (so the sleep is a quarter of it). First, every
  sleep that directly follows a request is half that request's timeout. Second, every
  retry is preceded by that sleep: whatever follows a request in the trace of a call is
  nothing, or the diagnostic alone, or the sleep of half the request's timeout, then one
  connection check, then the diagnostic or the next request with the doubled timeout.
\<close>

theorem retry_sleep_half_of_failed_timeout:
  "((t, d, nx) \<in> set (retry_waits (snd (enhance_text_with_ollama b text w))) \<longrightarrow>
      d = of_nat t / 2 \<and> (nx = None \<or> nx = Some (2 * t)))
   \<and> (snd (enhance_text_with_ollama b text w) = pre @ Post t' s # rest \<longrightarrow>
      rest = []
      \<or> (\<exists>m. rest = [StError m])
      \<or> (\<exists>ces rest'. rest = Sleep (of_nat t' / 2) # ces @ rest' \<and> is_check_trace ces
            \<and> ((\<exists>m. rest' = [StError m]) \<or> (\<exists>s' r. rest' = Post (2 * t') s' # r))))"
proof -
  have A: "d = of_nat t / 2 \<and> (nx = None \<or> nx = Some (2 * t))"
    if "(t, d, nx) \<in> set (retry_waits (snd (enhance_text_with_ollama b text w)))"
    using retry_loop_waits [of t d nx b "text" MAX_RETRIES MAX_RETRIES 0 INITIAL_TIMEOUT w] that
    by (auto simp: enhance_text_with_ollama_def TIMEOUT_BACKOFF_FACTOR_def)
  have B: "rest = []
      \<or> (\<exists>m. rest = [StError m])
      \<or> (\<exists>ces rest'. rest = Sleep (of_nat t' / 2) # ces @ rest' \<and> is_check_trace ces
            \<and> ((\<exists>m. rest' = [StError m]) \<or> (\<exists>s' r. rest' = Post (2 * t') s' # r)))"
    if h: "snd (enhance_text_with_ollama b text w) = pre @ Post t' s # rest"
  proof (cases "post_step b (n_post w + length (post_timeouts pre)) t' s")
    case (Inr c)
    with enhance_after_post [OF h] show ?thesis by blast
  next
    case (Inl e)
    show ?thesis
    proof (cases "is_RequestException (exn_class e)")
      case False
      with Inl enhance_after_post [OF h] show ?thesis by blast
    next
      case True
      with Inl enhance_after_post [OF h] show ?thesis by blast
    qed
  qed
  from A B show ?thesis by blast
qed

lemma failing_backend_trace:
  "snd (enhance_text_with_ollama failing_backend ''draft'' idle_world) =
     [Get 5, Post 30 ''draft'', Sleep 15, Get 5, Post 60 ''draft'', Sleep 30, Get 5,
      Post 120 ''draft'']"
  by (simp add: client_defs failing_backend_def)

text \<open>
  The amended claim C3 on a call whose every request fails: its second wait, and what
  follows its first request.
\<close>

theorem retry_sleep_half_of_failed_timeout_witness:
  "(60, 30, Some 120) \<in> set (retry_waits (snd (enhance_text_with_ollama failing_backend ''draft'' idle_world)))
   \<and> (30 :: rat) = of_nat 60 / 2
   \<and> snd (enhance_text_with_ollama failing_backend ''draft'' idle_world) =
       [Get 5] @ Post 30 ''draft'' #
         [Sleep 15, Get 5, Post 60 ''draft'', Sleep 30, Get 5, Post 120 ''draft'']
   \<and> (\<exists>ces rest'. [Sleep 15, Get 5, Post 60 ''draft'', Sleep 30, Get 5, Post 120 ''draft'']
          = Sleep (of_nat 30 / 2) # ces @ rest' \<and> is_check_trace ces
          \<and> ((\<exists>m. rest' = [StError m]) \<or> (\<exists>s' r. rest' = Post (2 * 30) s' # r)))"
proof -
  let ?E = "enhance_text_with_ollama failing_backend ''draft'' idle_world"
  let ?rest = "[Sleep 15, Get 5, Post 60 ''draft'', Sleep 30, Get 5, Post 120 ''draft'']"
  have h: "(60, 30, Some 120) \<in> set (retry_waits (snd ?E))"
    by (simp add: failing_backend_trace)
  have g: "snd ?E = [Get 5] @ Post 30 ''draft'' # ?rest"
    by (simp add: failing_backend_trace)
  note thm1 = retry_sleep_half_of_failed_timeout
    [of 60 30 "Some 120" failing_backend "''draft''" idle_world "[Get 5]" 30 "''draft''" ?rest]
  have a: "(30 :: rat) = of_nat 60 / 2"
    using thm1 h by blast
  have n1: "?rest \<noteq> []" and n2: "\<And>m. ?rest \<noteq> [StError m]"
    by simp_all
  have c: "\<exists>ces rest'. ?rest = Sleep (of_nat 30 / 2) # ces @ rest' \<and> is_check_trace ces
          \<and> ((\<exists>m. rest' = [StError m]) \<or> (\<exists>s' r. rest' = Post (2 * 30) s' # r))"
    using thm1 g n1 n2 by blast
  from h a g c show ?thesis by (intro conjI)
qed

lemma garbled_backend_run:
  "enhance_text_with_ollama garbled_backend ''draft'' idle_world =
     (Raised (Exn JSONDecodeError ''Expecting value: line 1 column 1 (char 0)''),
      [Get 5, Post 30 ''draft'', Sleep 15, Get 5, Post 60 ''draft'', Sleep 30, Get 5,
       Post 120 ''draft''])"
  by (simp add: client_defs garbled_backend_def)

text \<open>
  Claim C4, as stated, fails: a response whose body is not JSON is a failure of response
  parsing, yet the \<open>JSONDecodeError\<close> that \<^verbatim>\<open>response.json()\<close> raises is a
  \<open>RequestException\<close>, so the handler of line 94 catches it: the call retries twice and
  then raises, instead of returning the input text.
\<close>

theorem response_parsing_failure_is_retried_and_raised:
  "enhance_text_with_ollama garbled_backend ''draft'' idle_world =
     (Raised (Exn JSONDecodeError ''Expecting value: line 1 column 1 (char 0)''),
      [Get 5, Post 30 ''draft'', Sleep 15, Get 5, Post 60 ''draft'', Sleep 30, Get 5,
       Post 120 ''draft''])"
  by (simp add: client_defs garbled_backend_def)

text \<open>
  Claim C4, amended. In every enhancement call, when a request ends in an exception
  that is not a \<open>RequestException\<close> (the \<open>KeyError\<close> or \<open>TypeError\<close> of the lookup of the
  content, say), the call returns the original input text, and after that request it
  does nothing but emit the diagnostic: no sleep, no further probe or request, nothing
  raised. When a request ends in an exception that is a \<open>RequestException\<close>, the call
  either raises it, the request being its last event, or goes on with the retry sleep;
  this is what happens to a body that is not JSON, whose \<open>JSONDecodeError\<close> is a
  \<open>RequestException\<close>. The call never raises anything but a \<open>RequestException\<close>, and
  once a diagnostic is emitted it is the last event and the input text is the result.
  The request at a place of the trace is the one whose number is the count of requests
  before it.
\<close>

theorem non_transport_failure_returns_input:
  "(snd (enhance_text_with_ollama b text w) = pre @ Post t s # rest
      \<and> post_step b (n_post w + length (post_timeouts pre)) t s = Inl e
      \<and> \<not> is_RequestException (exn_class e) \<longrightarrow>
      rest = [StError (''Unexpected error: '' @ exn_msg e)]
      \<and> fst (enhance_text_with_ollama b text w) = Returned Line103 text)
   \<and> (snd (enhance_text_with_ollama b text w) = pre @ Post t s # rest
      \<and> post_step b (n_post w + length (post_timeouts pre)) t s = Inl e
      \<and> is_RequestException (exn_class e) \<longrightarrow>
      (rest = [] \<and> fst (enhance_text_with_ollama b text w) = Raised e)
      \<or> (\<exists>rest'. rest = Sleep (of_nat t / 2) # rest'))
   \<and> (post_chat b i t s = Response code reason (InvalidJson msg)
      \<and> (code < 400 \<or> 600 \<le> code) \<longrightarrow>
      post_step b i t s = Inl (Exn JSONDecodeError msg)
      \<and> is_RequestException (exn_class (Exn JSONDecodeError msg)))
   \<and> (fst (enhance_text_with_ollama b text w) = Raised e' \<longrightarrow> is_RequestException (exn_class e'))
   \<and> (StError m \<in> set (snd (enhance_text_with_ollama b text w)) \<longrightarrow>
        fst (enhance_text_with_ollama b text w) = Returned Line103 text
        \<and> last (snd (enhance_text_with_ollama b text w)) = StError m)"
proof -
  let ?E = "enhance_text_with_ollama b text w"
  have A1: "rest = [StError (''Unexpected error: '' @ exn_msg e)] \<and> fst ?E = Returned Line103 text"
    if h: "snd ?E = pre @ Post t s # rest"
      and p: "post_step b (n_post w + length (post_timeouts pre)) t s = Inl e"
      and q: "\<not> is_RequestException (exn_class e)"
    using enhance_after_post [OF h] p q by blast
  have A2: "(rest = [] \<and> fst ?E = Raised e) \<or> (\<exists>rest'. rest = Sleep (of_nat t / 2) # rest')"
    if h: "snd ?E = pre @ Post t s # rest"
      and p: "post_step b (n_post w + length (post_timeouts pre)) t s = Inl e"
      and q: "is_RequestException (exn_class e)"
    using enhance_after_post [OF h] p q by blast
  have A3: "post_step b i t s = Inl (Exn JSONDecodeError msg)
      \<and> is_RequestException (exn_class (Exn JSONDecodeError msg))"
    if "post_chat b i t s = Response code reason (InvalidJson msg)" and "code < 400 \<or> 600 \<le> code"
    using that by (auto simp: post_step_def)
  have B: "is_RequestException (exn_class e')" if r: "fst ?E = Raised e'"
  proof -
    have "retry_loop b text 3 3 0 30 w = (Raised e', snd ?E)"
      using r by (cases ?E) (auto simp: enhance_text_with_ollama_def MAX_RETRIES_def INITIAL_TIMEOUT_def)
    from retry_loop_raised [OF _ this] show ?thesis by simp
  qed
  have C: "fst ?E = Returned Line103 text \<and> last (snd ?E) = StError m"
    if "StError m \<in> set (snd ?E)"
    using that retry_loop_diagnostic [of m b "text" MAX_RETRIES MAX_RETRIES 0 INITIAL_TIMEOUT w]
    by (simp add: enhance_text_with_ollama_def)
  from A1 A2 A3 B C show ?thesis by blast
qed

lemma malformed_backend_run:
  "enhance_text_with_ollama malformed_backend ''draft'' idle_world =
     (Returned Line103 ''draft'', [Get 5, Post 30 ''draft'', StError ''Unexpected error: message''])"
  by (simp add: client_defs malformed_backend_def)

text \<open>
  The amended claim C4 at a backend whose answer lacks the \<open>message\<close> key, and at one
  whose body is not JSON.
\<close>

theorem non_transport_failure_returns_input_witness:
  "snd (enhance_text_with_ollama malformed_backend ''draft'' idle_world)
      = [Get 5] @ Post 30 ''draft'' # [StError ''Unexpected error: message'']
   \<and> post_step malformed_backend (n_post idle_world + length (post_timeouts [Get 5])) 30 ''draft''
      = Inl (Exn KeyError ''message'')
   \<and> \<not> is_RequestException (exn_class (Exn KeyError ''message''))
   \<and> fst (enhance_text_with_ollama malformed_backend ''draft'' idle_world) = Returned Line103 ''draft''
   \<and> StError ''Unexpected error: message''
        \<in> set (snd (enhance_text_with_ollama malformed_backend ''draft'' idle_world))
   \<and> last (snd (enhance_text_with_ollama malformed_backend ''draft'' idle_world))
        = StError ''Unexpected error: message''
   \<and> snd (enhance_text_with_ollama garbled_backend ''draft'' idle_world)
      = [Get 5] @ Post 30 ''draft'' #
          [Sleep 15, Get 5, Post 60 ''draft'', Sleep 30, Get 5, Post 120 ''draft'']
   \<and> post_chat garbled_backend 0 30 ''draft''
      = Response 200 ''OK'' (InvalidJson ''Expecting value: line 1 column 1 (char 0)'')
   \<and> post_step garbled_backend (n_post idle_world + length (post_timeouts [Get 5])) 30 ''draft''
      = Inl (Exn JSONDecodeError ''Expecting value: line 1 column 1 (char 0)'')
   \<and> is_RequestException (exn_class (Exn JSONDecodeError ''Expecting value: line 1 column 1 (char 0)''))
   \<and> (\<exists>rest'. [Sleep 15, Get 5, Post 60 ''draft'', Sleep 30, Get 5, Post 120 ''draft'']
         = Sleep (of_nat 30 / 2) # rest')
   \<and> fst (enhance_text_with_ollama garbled_backend ''draft'' idle_world)
      = Raised (Exn JSONDecodeError ''Expecting value: line 1 column 1 (char 0)'')"
proof -
  let ?M = "enhance_text_with_ollama malformed_backend ''draft'' idle_world"
  let ?G = "enhance_text_with_ollama garbled_backend ''draft'' idle_world"
  let ?k = "Exn KeyError ''message''"
  let ?j = "Exn JSONDecodeError ''Expecting value: line 1 column 1 (char 0)''"
  let ?d = "''Unexpected error: message''"
  let ?rest = "[Sleep 15, Get 5, Post 60 ''draft'', Sleep 30, Get 5, Post 120 ''draft'']"
  have m1: "snd ?M = [Get 5] @ Post 30 ''draft'' # [StError ?d]"
    by (simp add: malformed_backend_run)
  have m2: "post_step malformed_backend (n_post idle_world + length (post_timeouts [Get 5])) 30 ''draft''
      = Inl ?k"
    by (simp add: post_step_def malformed_backend_def idle_world_def)
  have m3: "\<not> is_RequestException (exn_class ?k)"
    by simp
  have m4: "StError ?d \<in> set (snd ?M)"
    by (simp add: malformed_backend_run)
  have g1: "snd ?G = [Get 5] @ Post 30 ''draft'' # ?rest"
    by (simp add: garbled_backend_run)
  have g2: "post_chat garbled_backend 0 30 ''draft''
      = Response 200 ''OK'' (InvalidJson ''Expecting value: line 1 column 1 (char 0)'')"
    by (simp add: garbled_backend_def)
  have g4: "fst ?G = Raised ?j"
    by (simp add: garbled_backend_run)
  have g5: "post_step garbled_backend (n_post idle_world + length (post_timeouts [Get 5])) 30 ''draft''
      = Inl ?j"
    by (simp add: post_step_def garbled_backend_def idle_world_def)
  note tm = non_transport_failure_returns_input
    [of malformed_backend "''draft''" idle_world "[Get 5]" 30 "''draft''" "[StError ?d]" ?k
        0 200 "''OK''" "''Expecting value: line 1 column 1 (char 0)''" ?j ?d]
  note tg = non_transport_failure_returns_input
    [of garbled_backend "''draft''" idle_world "[Get 5]" 30 "''draft''" ?rest ?j
        0 200 "''OK''" "''Expecting value: line 1 column 1 (char 0)''" ?j ?d]
  have c1: "fst ?M = Returned Line103 ''draft''"
    using tm m1 m2 m3 by blast
  have c2: "last (snd ?M) = StError ?d"
    using tm m4 by blast
  have c3: "is_RequestException (exn_class ?j)"
    using tg g4 by blast
  have n1: "?rest \<noteq> []"
    by simp
  have c4: "\<exists>rest'. ?rest = Sleep (of_nat 30 / 2) # rest'"
    using tg g1 g5 c3 n1 by blast
  from m1 m2 m3 c1 m4 c2 g1 g2 g5 c3 c4 g4 show ?thesis by (intro conjI)
qed

text \<open>
  Claim C10. With \<open>MAX_RETRIES = 3\<close>, and with any value of at least 1, the return of
  line 105 is never reached: the call always leaves from inside the loop.
\<close>

theorem fallback_return_unreachable:
  "(1 \<le> max_retries \<longrightarrow>
      fst (retry_loop b text max_retries max_retries 0 timeout w) \<noteq> Returned Line105 x)
   \<and> fst (enhance_text_with_ollama b text w) \<noteq> Returned Line105 x"
proof -
  have A: "fst (retry_loop b text max_retries max_retries 0 timeout w) \<noteq> Returned Line105 x"
    if "1 \<le> max_retries" for max_retries timeout
    using retry_loop_never_falls_through [of 0 max_retries max_retries b "text" timeout w x] that
    by simp
  from A [of MAX_RETRIES INITIAL_TIMEOUT]
  have "fst (enhance_text_with_ollama b text w) \<noteq> Returned Line105 x"
    by (simp add: enhance_text_with_ollama_def MAX_RETRIES_def)
  with A show ?thesis by blast
qed

text \<open>
Claim C10 at three retries; with no retries at all line 105 is reached.
\<close>

theorem fallback_return_unreachable_witness:
  "(1 :: nat) \<le> 3
   \<and> fst (retry_loop failing_backend ''draft'' 3 3 0 30 idle_world) \<noteq> Returned Line105 ''draft''
   \<and> fst (retry_loop failing_backend ''draft'' 0 0 0 30 idle_world) = Returned Line105 ''draft''"
  using fallback_return_unreachable [of 3 failing_backend "''draft''" 30 idle_world "''draft''"]
  by simp

subsection \<open>Persisting a document\<close>

text \<open>
  Claim C7. For every successful document save, the persisted record's original-content
  and enhanced-content fields are the inputs truncated to at most 10000 characters
  (exactly 10000 when the input is longer), and its status tag is "processed".
\<close>

theorem saved_record_truncated:
  assumes "save_to_firestore env user_id name original enhanced db = (Some rid, es, db')"
  shows "\<exists>r. documents db' (user_id, rid) = Some r
           \<and> original_content r = take 10000 original
           \<and> enhanced_content r = take 10000 enhanced
           \<and> length (original_content r) \<le> 10000
           \<and> length (enhanced_content r) \<le> 10000
           \<and> (10000 < length original \<longrightarrow> length (original_content r) = 10000)
           \<and> (10000 < length enhanced \<longrightarrow> length (enhanced_content r) = 10000)
           \<and> status r = ''processed''"
  using assms
  by (auto simp: save_to_firestore_def save_failed_def Let_def split: option.splits)

text \<open>Claim C7 on 20000 letters A and 20000 letters B.\<close>

theorem saved_record_truncated_witness:
  "fst (save_to_firestore sample_store_env ''alice'' ''report.pdf''
          (replicate 20000 (CHR ''A'')) (replicate 20000 (CHR ''B'')) sample_store) = Some ''ref1''
   \<and> (\<exists>r. documents (snd (snd (save_to_firestore sample_store_env ''alice'' ''report.pdf''
          (replicate 20000 (CHR ''A'')) (replicate 20000 (CHR ''B'')) sample_store)))
            (''alice'', ''ref1'') = Some r
         \<and> original_content r = replicate 10000 (CHR ''A'')
         \<and> enhanced_content r = replicate 10000 (CHR ''B'')
         \<and> length (original_content r) = 10000
         \<and> length (enhanced_content r) = 10000
         \<and> status r = ''processed'')"
proof -
  let ?S = "save_to_firestore sample_store_env ''alice'' ''report.pdf''
          (replicate 20000 (CHR ''A'')) (replicate 20000 (CHR ''B'')) sample_store"
  have f: "fst ?S = Some ''ref1''" and e: "fst (snd ?S) = []"
    by (simp_all add: save_to_firestore_def sample_store_env_def sample_store_def)
  have h: "?S = (Some ''ref1'', [], snd (snd ?S))"
    using f e by (cases ?S) auto
  from saved_record_truncated [OF h] f show ?thesis
    by auto
qed

subsection \<open>Text Extractor\<close>

lemma process_document_failure_wrapped:
  assumes "process_document env file fs = (Inl e, es, fs')"
  shows "exn_class e = ValueError \<and> (\<exists>m. exn_msg e = ''Error processing document: '' @ m)"
  using assms
  by (auto simp: process_document_def split: prod.splits sum.splits)

text \<open>
  Claim C5, as stated, fails: the error for an unsupported suffix and the error for a
  parsing exception are of the same kind. A file named \<open>scan.png\<close> and a DOCX that the
  parser rejects both fail with a \<open>ValueError\<close> whose message starts with the same
  wrapper text.
\<close>

theorem unsupported_and_parse_errors_same_kind:
  "fst (process_document (sample_env [] None) \<lparr>filename = ''scan.png'', getvalue = ''x''\<rparr> Map.empty)
     = Inl (Exn ValueError ''Error processing document: Unsupported file format: scan.png'')
   \<and> fst (process_document (sample_env [] None) \<lparr>filename = ''memo.docx'', getvalue = ''x''\<rparr> Map.empty)
     = Inl (Exn ValueError ''Error processing document: word/document.xml'')"
  by (simp add: process_document_def dispatch_def endswith_def sample_env_def)

text \<open>
  Claim C5, amended. For every uploaded file whose name ends in none of \<open>.txt\<close>,
  \<open>.docx\<close>, \<open>.pdf\<close>, extraction fails with a \<open>ValueError\<close> whose message is "Error
  processing document: Unsupported file format: " followed by the whole file name, and
  touches no file; every failure of the extraction, whatever its cause, is a
  \<open>ValueError\<close> with the same "Error processing document: " prefix, so the two are told
  apart by the message text only.
\<close>

theorem unsupported_suffix_wrapped_value_error:
  assumes "\<not> endswith (filename file) ''.txt''"
    and "\<not> endswith (filename file) ''.docx''"
    and "\<not> endswith (filename file) ''.pdf''"
  shows "process_document env file fs =
           (Inl (Exn ValueError
                  (''Error processing document: Unsupported file format: '' @ filename file)),
            [], fs)
         \<and> (\<forall>env' file' fs' e es fs''.
               process_document env' file' fs' = (Inl e, es, fs'') \<longrightarrow>
               exn_class e = ValueError
               \<and> (\<exists>m. exn_msg e = ''Error processing document: '' @ m))"
proof -
  have "process_document env file fs =
           (Inl (Exn ValueError
                  (''Error processing document: Unsupported file format: '' @ filename file)),
            [], fs)"
    using assms by (simp add: process_document_def dispatch_def)
  then show ?thesis
    using process_document_failure_wrapped by blast
qed

text \<open>The amended claim C5 on a file named \<open>scan.png\<close>.\<close>

theorem unsupported_suffix_wrapped_value_error_witness:
  "\<not> endswith ''scan.png'' ''.txt'' \<and> \<not> endswith ''scan.png'' ''.docx''
   \<and> \<not> endswith ''scan.png'' ''.pdf''
   \<and> process_document (sample_env [] None) \<lparr>filename = ''scan.png'', getvalue = ''x''\<rparr> Map.empty =
       (Inl (Exn ValueError ''Error processing document: Unsupported file format: scan.png''),
        [], Map.empty)"
proof -
  have a: "\<not> endswith (filename \<lparr>filename = ''scan.png'', getvalue = ''x''\<rparr>) ''.txt''"
    and b: "\<not> endswith (filename \<lparr>filename = ''scan.png'', getvalue = ''x''\<rparr>) ''.docx''"
    and c: "\<not> endswith (filename \<lparr>filename = ''scan.png'', getvalue = ''x''\<rparr>) ''.pdf''"
    by (simp_all add: endswith_def)
  from unsupported_suffix_wrapped_value_error [OF a b c, of "sample_env [] None" Map.empty] a b c
  show ?thesis by simp
qed

lemma extract_pdf_removes_tmp_after_write:
  assumes "tmp_write env (getvalue file) = None"
  shows "snd (snd (extract_pdf env file fs)) (tmp_name env) = None"
  using assms by (simp add: extract_pdf_def Let_def split: prod.splits)

lemma process_document_pdf_removes_tmp_after_write:
  assumes "\<not> endswith (filename file) ''.txt''"
    and "\<not> endswith (filename file) ''.docx''"
    and "endswith (filename file) ''.pdf''"
    and "tmp_write env (getvalue file) = None"
  shows "snd (snd (process_document env file fs)) (tmp_name env) = None"
proof -
  have "snd (snd (process_document env file fs)) = snd (snd (extract_pdf env file fs))"
    using assms(1-3) by (simp add: process_document_def dispatch_def split: prod.splits sum.splits)
  with extract_pdf_removes_tmp_after_write [OF assms(4)] show ?thesis by simp
qed

text \<open>
  Claim C6 against the code: when writing the upload into the temporary file raises
  (here the disk is full), the call fails and the temporary file, created before the
  \<^verbatim>\<open>try\<close> whose \<^verbatim>\<open>finally\<close> unlinks it, is still there afterwards. (Once the write has
  succeeded the file is removed on every path:
  \<open>process_document_pdf_removes_tmp_after_write\<close>.)
\<close>

theorem tmp_file_left_when_write_fails:
  "process_document (sample_env [Inr ''one''] (Some (Exn OSError ''No space left on device'')))
     \<lparr>filename = ''a.pdf'', getvalue = ''%PDF''\<rparr> Map.empty =
     (Inl (Exn ValueError ''Error processing document: No space left on device''), [],
      [''/tmp/tmpq1.pdf'' \<mapsto> []])"
  by (simp add: process_document_def dispatch_def extract_pdf_def endswith_def sample_env_def)

lemma ocr_images_all_recognised:
  "map (image_to_string env) images = map Inr ocr_texts \<Longrightarrow>
   ocr_images env images acc = (Inr (acc @ ocr_block ocr_texts), map ImageToString images)"
proof (induction images arbitrary: acc ocr_texts)
  case Nil
  then show ?case by (simp add: ocr_block_def)
next
  case (Cons im ims)
  then obtain s rest where o: "ocr_texts = s # rest" and i: "image_to_string env im = Inr s"
    and m: "map (image_to_string env) ims = map Inr rest"
    by (cases ocr_texts) auto
  from Cons.IH [OF m, of "acc @ s @ [newline]"] i o show ?case
    by (simp add: ocr_block_def)
qed

text \<open>What one page adds to the text, and the OCR calls it causes.\<close>

lemma extract_pages_all_recognised:
  assumes "read_file fs path = Inr bytes"
    and "pdf_images env bytes = Inr images"
    and "map (image_to_string env) images = map Inr ocr_texts"
  shows "extract_pages env fs path (map Inr texts) acc =
     (Inr (acc @ concat (map (\<lambda>t. if t \<noteq> [] then t @ [newline] else ocr_block ocr_texts) texts)),
      concat (map (\<lambda>t. if t \<noteq> [] then []
                        else ConvertFromPath path # map ImageToString images) texts))"
proof (induction texts arbitrary: acc)
  case Nil
  show ?case by simp
next
  case (Cons t ts)
  show ?case
  proof (cases "t = []")
    case False
    with Cons [of "acc @ t @ [newline]"] show ?thesis by simp
  next
    case True
    with Cons [of "acc @ ocr_block ocr_texts"] assms(1,2)
      ocr_images_all_recognised [OF assms(3), of acc]
    show ?thesis by simp
  qed
qed

lemma count_converts:
  "length (filter is_convert
     (concat (map (\<lambda>t. if t \<noteq> [] then []
                        else ConvertFromPath path # map ImageToString images) texts)))
   = length (filter (\<lambda>t. t = []) texts)"
proof -
  have n: "filter is_convert (map ImageToString ims) = []" for ims
    by (induction ims) simp_all
  show ?thesis
    by (induction texts) (simp_all add: n)
qed

text \<open>
  Claim C9. For a PDF whose pages are read without error, each page that yields no
  native text runs the OCR of the whole document once: with \<open>k\<close> such pages,
  \<^verbatim>\<open>convert_from_path\<close> is called \<open>k\<close> times and the recognised text of every page
  image is appended \<open>k\<close> times, at the places of the textless pages, between the native
  texts of the other pages.
\<close>

theorem ocr_fallback_runs_once_per_textless_page:
  assumes "\<not> endswith (filename file) ''.txt''"
    and "\<not> endswith (filename file) ''.docx''"
    and "endswith (filename file) ''.pdf''"
    and "tmp_write env (getvalue file) = None"
    and "pdf_pages env (getvalue file) = Inr (map Inr texts)"
    and "pdf_images env (getvalue file) = Inr images"
    and "map (image_to_string env) images = map Inr ocr_texts"
  shows "fst (process_document env file fs) =
           Inr (concat (map (\<lambda>t. if t \<noteq> [] then t @ [newline] else ocr_block ocr_texts) texts))
         \<and> fst (snd (process_document env file fs)) =
           concat (map (\<lambda>t. if t \<noteq> [] then []
                             else ConvertFromPath (tmp_name env) # map ImageToString images) texts)
         \<and> length (filter is_convert (fst (snd (process_document env file fs))))
             = length (filter (\<lambda>t. t = []) texts)"
proof -
  let ?fs2 = "(fs(tmp_name env \<mapsto> []))(tmp_name env \<mapsto> getvalue file)"
  have r: "read_file ?fs2 (tmp_name env) = Inr (getvalue file)"
    by (simp add: read_file_def)
  have p: "read_pdf env ?fs2 (tmp_name env) =
     (Inr (concat (map (\<lambda>t. if t \<noteq> [] then t @ [newline] else ocr_block ocr_texts) texts)),
      concat (map (\<lambda>t. if t \<noteq> [] then []
                        else ConvertFromPath (tmp_name env) # map ImageToString images) texts))"
    using extract_pages_all_recognised [OF r assms(6,7), of texts "[]"] assms(5) r
    by (simp add: read_pdf_def)
  have "process_document env file fs =
     (Inr (concat (map (\<lambda>t. if t \<noteq> [] then t @ [newline] else ocr_block ocr_texts) texts)),
      concat (map (\<lambda>t. if t \<noteq> [] then []
                        else ConvertFromPath (tmp_name env) # map ImageToString images) texts),
      ?fs2(tmp_name env := None))"
    using assms(1-4) p
    by (simp add: process_document_def dispatch_def extract_pdf_def Let_def)
  then show ?thesis
    by (simp add: count_converts)
qed

text \<open>Claim C9 on a four-page PDF whose second and fourth pages have no text layer.\<close>

theorem ocr_fallback_runs_once_per_textless_page_witness:
  "fst (process_document (sample_env [Inr ''one'', Inr [], Inr ''three'', Inr []] None)
          \<lparr>filename = ''a.pdf'', getvalue = ''%PDF''\<rparr> Map.empty) =
     Inr (''one'' @ [newline] @ ocr_block [''text of img1'', ''text of img2'']
          @ ''three'' @ [newline] @ ocr_block [''text of img1'', ''text of img2''])
   \<and> length (filter is_convert (fst (snd (process_document
        (sample_env [Inr ''one'', Inr [], Inr ''three'', Inr []] None)
          \<lparr>filename = ''a.pdf'', getvalue = ''%PDF''\<rparr> Map.empty)))) = 2"
proof -
  let ?env = "sample_env [Inr ''one'', Inr [], Inr ''three'', Inr []] None"
  let ?file = "\<lparr>filename = ''a.pdf'', getvalue = ''%PDF''\<rparr>"
  have a: "\<not> endswith (filename ?file) ''.txt''"
    and b: "\<not> endswith (filename ?file) ''.docx''"
    and c: "endswith (filename ?file) ''.pdf''"
    by (simp_all add: endswith_def)
  have d: "tmp_write ?env (getvalue ?file) = None"
    and e: "pdf_pages ?env (getvalue ?file) = Inr (map Inr [''one'', [], ''three'', []])"
    and f: "pdf_images ?env (getvalue ?file) = Inr [''img1'', ''img2'']"
    and g: "map (image_to_string ?env) [''img1'', ''img2'']
              = map Inr [''text of img1'', ''text of img2'']"
    by (simp_all add: sample_env_def)
  from ocr_fallback_runs_once_per_textless_page [OF a b c d e f g, of Map.empty]
  show ?thesis by simp
qed

end
